theory Spec2Isabelle
  imports Complex_Main
begin

text \<open>
  The Colebrook friction factor by Clamond's quartic iterations, as \<open>colebrook_clamond.py\<close>
  computes it with numpy: the function \<open>f_clamond(R, K, iters)\<close>, its validation of the
  arguments, its warning, its log-domain check and its arithmetic on arrays.
\<close>

section \<open>Double-precision values\<close>

text \<open>
  A \<open>float64\<close> is a finite number, one of the two infinities, or NaN. A finite double is
  identified with the real number it denotes, and arithmetic on finite values is exact:
  rounding and overflow of finite results are not part of this model. The special values
  follow IEEE 754 as numpy applies it (numpy warns and continues on division by zero and
  on invalid operations). The sign of a zero is not tracked: a zero divisor counts as
  \<open>+0\<close>. Past the log-domain check the only quotient of the solver whose divisor can be
  zero is \<open>_A / F\<close>, and that quotient is squared.

  What is proved about the solver for all inputs is stated through the operations of this
  section, applied element by element in the order of the source, and uses nothing of how
  a finite result is computed. Exact arithmetic enters only where the solver is evaluated
  at a particular input, and where its constants are compared with those of the
  specification.
\<close>

datatype float64 = Fin real | PInf | MInf | NaN

fun fl_neg :: "float64 \<Rightarrow> float64" where
  "fl_neg (Fin a) = Fin (- a)"
| "fl_neg PInf = MInf"
| "fl_neg MInf = PInf"
| "fl_neg NaN = NaN"

fun fl_add :: "float64 \<Rightarrow> float64 \<Rightarrow> float64" where
  "fl_add NaN y = NaN"
| "fl_add x NaN = NaN"
| "fl_add (Fin a) (Fin b) = Fin (a + b)"
| "fl_add PInf MInf = NaN"
| "fl_add MInf PInf = NaN"
| "fl_add PInf y = PInf"
| "fl_add MInf y = MInf"
| "fl_add (Fin a) y = y"

definition fl_sub :: "float64 \<Rightarrow> float64 \<Rightarrow> float64" where
  "fl_sub x y = fl_add x (fl_neg y)"

definition signed_inf :: "bool \<Rightarrow> float64" where
  "signed_inf positive = (if positive then PInf else MInf)"

fun fl_mul :: "float64 \<Rightarrow> float64 \<Rightarrow> float64" where
  "fl_mul NaN y = NaN"
| "fl_mul x NaN = NaN"
| "fl_mul (Fin a) (Fin b) = Fin (a * b)"
| "fl_mul (Fin a) PInf = (if a = 0 then NaN else signed_inf (0 < a))"
| "fl_mul (Fin a) MInf = (if a = 0 then NaN else signed_inf (a < 0))"
| "fl_mul PInf (Fin b) = (if b = 0 then NaN else signed_inf (0 < b))"
| "fl_mul MInf (Fin b) = (if b = 0 then NaN else signed_inf (b < 0))"
| "fl_mul PInf PInf = PInf"
| "fl_mul MInf MInf = PInf"
| "fl_mul PInf MInf = MInf"
| "fl_mul MInf PInf = MInf"

fun fl_div :: "float64 \<Rightarrow> float64 \<Rightarrow> float64" where
  "fl_div NaN y = NaN"
| "fl_div x NaN = NaN"
| "fl_div (Fin a) (Fin b) =
     (if b = 0 then (if a = 0 then NaN else signed_inf (0 < a)) else Fin (a / b))"
| "fl_div (Fin a) y = Fin 0"
| "fl_div PInf (Fin b) = signed_inf (0 \<le> b)"
| "fl_div MInf (Fin b) = signed_inf (b < 0)"
| "fl_div x y = NaN"

fun fl_log :: "float64 \<Rightarrow> float64" where
  "fl_log (Fin a) = (if 0 < a then Fin (ln a) else if a = 0 then MInf else NaN)"
| "fl_log PInf = PInf"
| "fl_log MInf = NaN"
| "fl_log NaN = NaN"

definition fl_square :: "float64 \<Rightarrow> float64" where
  \<comment> \<open>\<open>x ** 2\<close>\<close>
  "fl_square x = fl_mul x x"

fun fl_le :: "float64 \<Rightarrow> float64 \<Rightarrow> bool" where
  "fl_le NaN y = False"
| "fl_le x NaN = False"
| "fl_le (Fin a) (Fin b) = (a \<le> b)"
| "fl_le MInf y = True"
| "fl_le x PInf = True"
| "fl_le x y = False"

fun fl_lt :: "float64 \<Rightarrow> float64 \<Rightarrow> bool" where
  "fl_lt NaN y = False"
| "fl_lt x NaN = False"
| "fl_lt (Fin a) (Fin b) = (a < b)"
| "fl_lt PInf y = False"
| "fl_lt x MInf = False"
| "fl_lt x y = True"

fun is_finite :: "float64 \<Rightarrow> bool" where
  "is_finite (Fin a) = True"
| "is_finite x = False"


section \<open>Values, arrays and broadcasting\<close>

text \<open>
  What the solver receives and returns: a Python float, a numpy \<open>float64\<close> scalar, or an
  \<open>ndarray\<close> given by its shape and its elements in row-major order. A scalar counts as
  an array of shape \<open>()\<close> in arithmetic.
\<close>

datatype pyval = PyFloat float64 | NpFloat64 float64 | NdArray "nat list" "float64 list"

datatype py_error = ValueError string | FloatingPointError string | TypeError string

type_synonym warning = string

fun shape_of :: "pyval \<Rightarrow> nat list" where
  "shape_of (PyFloat x) = []"
| "shape_of (NpFloat64 x) = []"
| "shape_of (NdArray s d) = s"

fun data_of :: "pyval \<Rightarrow> float64 list" where
  "data_of (PyFloat x) = [x]"
| "data_of (NpFloat64 x) = [x]"
| "data_of (NdArray s d) = d"

definition well_formed :: "pyval \<Rightarrow> bool" where
  "well_formed v = (length (data_of v) = prod_list (shape_of v))"

definition np_asarray :: "pyval \<Rightarrow> pyval" where
  "np_asarray v = NdArray (shape_of v) (data_of v)"

fun np_isscalar :: "pyval \<Rightarrow> bool" where
  "np_isscalar (PyFloat x) = True"
| "np_isscalar (NpFloat64 x) = True"
| "np_isscalar (NdArray s d) = False"

definition np_any :: "(float64 \<Rightarrow> bool) \<Rightarrow> pyval \<Rightarrow> bool" where
  \<comment> \<open>\<open>np.any(cond(v))\<close> for an element-wise condition\<close>
  "np_any cond v = list_ex cond (data_of v)"

definition pad_shape :: "nat \<Rightarrow> nat list \<Rightarrow> nat list" where
  \<comment> \<open>align a shape at its trailing dimensions: missing leading dimensions are 1\<close>
  "pad_shape n s = replicate (n - length s) 1 @ s"

fun broadcast_dims :: "nat list \<Rightarrow> nat list \<Rightarrow> nat list option" where
  "broadcast_dims [] [] = Some []"
| "broadcast_dims (a # as) (b # bs) =
     (if a = b \<or> b = 1 then map_option ((#) a) (broadcast_dims as bs)
      else if a = 1 then map_option ((#) b) (broadcast_dims as bs)
      else None)"
| "broadcast_dims as bs = None"

definition np_broadcast_shapes :: "nat list \<Rightarrow> nat list \<Rightarrow> nat list option" where
  "np_broadcast_shapes s t =
     (let n = max (length s) (length t) in broadcast_dims (pad_shape n s) (pad_shape n t))"

fun chunks :: "nat \<Rightarrow> nat \<Rightarrow> 'a list \<Rightarrow> 'a list list" where
  "chunks n 0 xs = []"
| "chunks n (Suc k) xs = take n xs # chunks n k (drop n xs)"

fun stretch :: "nat list \<Rightarrow> nat list \<Rightarrow> 'a list \<Rightarrow> 'a list" where
  "stretch (a # as) (t # ts) xs =
     (if a = t then concat (map (stretch as ts) (chunks (prod_list as) a xs))
      else concat (replicate t (stretch as ts xs)))"
| "stretch as ts xs = xs"

definition np_broadcast_to :: "pyval \<Rightarrow> nat list \<Rightarrow> float64 list" where
  \<comment> \<open>the elements of \<open>v\<close> seen at shape \<open>t\<close>, size-1 dimensions repeated\<close>
  "np_broadcast_to v t = stretch (pad_shape (length t) (shape_of v)) t (data_of v)"

definition wrap_result :: "nat list \<Rightarrow> float64 list \<Rightarrow> pyval" where
  \<comment> \<open>a numpy operation returns a \<open>float64\<close> scalar, not an array, when its result is 0-d\<close>
  "wrap_result s d = (case (s, d) of ([], [x]) \<Rightarrow> NpFloat64 x | _ \<Rightarrow> NdArray s d)"

definition broadcast_msg :: string where
  "broadcast_msg = ''operands could not be broadcast together''"

definition ufunc1 :: "(float64 \<Rightarrow> float64) \<Rightarrow> py_error + pyval \<Rightarrow> py_error + pyval" where
  "ufunc1 g a =
     (case a of Inl e \<Rightarrow> Inl e
      | Inr x \<Rightarrow> Inr (wrap_result (shape_of x) (map g (data_of x))))"

definition ufunc2 ::
  "(float64 \<Rightarrow> float64 \<Rightarrow> float64) \<Rightarrow> py_error + pyval \<Rightarrow> py_error + pyval \<Rightarrow> py_error + pyval"
where
  \<comment> \<open>a binary operator: left operand, then right operand, then the broadcast\<close>
  "ufunc2 g a b =
     (case a of Inl e \<Rightarrow> Inl e
      | Inr x \<Rightarrow>
          (case b of Inl e \<Rightarrow> Inl e
           | Inr y \<Rightarrow>
               (case np_broadcast_shapes (shape_of x) (shape_of y) of
                  None \<Rightarrow> Inl (ValueError broadcast_msg)
                | Some s \<Rightarrow>
                    Inr (wrap_result s
                          (map2 g (np_broadcast_to x s) (np_broadcast_to y s))))))"

definition lit :: "real \<Rightarrow> py_error + pyval" where
  "lit c = Inr (PyFloat (Fin c))"

definition np_scalar :: "float64 \<Rightarrow> py_error + pyval" where
  \<comment> \<open>a module constant computed by numpy: \<open>_C1\<close>, \<open>_C2\<close>\<close>
  "np_scalar x = Inr (NpFloat64 x)"

definition py_scalar :: "float64 \<Rightarrow> py_error + pyval" where
  \<comment> \<open>a module constant given by a literal: \<open>_A\<close>\<close>
  "py_scalar x = Inr (PyFloat x)"

definition py_float :: "pyval \<Rightarrow> py_error + pyval" where
  \<comment> \<open>\<open>float(f)\<close>\<close>
  "py_float v =
     (case data_of v of [x] \<Rightarrow> Inr (PyFloat x)
      | _ \<Rightarrow> Inl (TypeError ''only length-1 arrays can be converted to Python scalars''))"


section \<open>The solver\<close>

definition const_LOG10 :: float64 where
  "const_LOG10 = fl_log (Fin 10)"

definition const_C1 :: float64 where
  "const_C1 = fl_div const_LOG10 (Fin 18.574)"

definition const_C2 :: float64 where
  "const_C2 = fl_add (fl_log (fl_div (Fin 1) (Fin 5.02))) (fl_log const_LOG10)"

definition const_A :: float64 where
  "const_A = Fin 1.151292546497022842"


definition msg_R :: string where
  "msg_R = ''Reynolds number R must be positive.''"

definition msg_K :: string where
  "msg_K = ''Relative roughness K must be non-negative.''"

definition msg_iters :: string where
  "msg_iters = ''iters must be >= 0.''"

definition msg_turbulent :: warning where
  "msg_turbulent = ''Colebrook equation is for turbulent flow (R >= 2300).''"

definition msg_log_domain :: string where
  "msg_log_domain =
     ''Log domain error: X1 + F <= 0 in iteration. '' @
     ''Check R, K values (R>3 is recommended in the paper) or reduce iters.''"

definition check_log_domain :: "pyval \<Rightarrow> pyval \<Rightarrow> py_error + unit" where
  "check_log_domain X1 F_current =
     (case ufunc2 fl_add (Inr X1) (Inr F_current) of
        Inl e \<Rightarrow> Inl e
      | Inr y \<Rightarrow>
          if np_any (\<lambda>v. fl_le v (Fin 0)) y then Inl (FloatingPointError msg_log_domain)
          else Inr ())"

definition correction_E :: "pyval \<Rightarrow> pyval \<Rightarrow> pyval \<Rightarrow> py_error + pyval" where
  \<comment> \<open>\<open>E = (np.log(X1 + F) + F - X2) / (1.0 + X1 + F)\<close>\<close>
  "correction_E X1 X2 F =
     ufunc2 fl_div
       (ufunc2 fl_sub
          (ufunc2 fl_add (ufunc1 fl_log (ufunc2 fl_add (Inr X1) (Inr F))) (Inr F))
          (Inr X2))
       (ufunc2 fl_add (ufunc2 fl_add (lit 1) (Inr X1)) (Inr F))"

definition update_F :: "pyval \<Rightarrow> pyval \<Rightarrow> pyval \<Rightarrow> py_error + pyval" where
  \<comment> \<open>\<open>F - (1.0 + X1 + F + 0.5 * E) * E * (X1 + F) / (1.0 + X1 + F + E * (1.0 + E / 3.0))\<close>\<close>
  "update_F X1 E F =
     ufunc2 fl_sub (Inr F)
       (ufunc2 fl_div
          (ufunc2 fl_mul
             (ufunc2 fl_mul
                (ufunc2 fl_add (ufunc2 fl_add (ufunc2 fl_add (lit 1) (Inr X1)) (Inr F))
                   (ufunc2 fl_mul (lit 0.5) (Inr E)))
                (Inr E))
             (ufunc2 fl_add (Inr X1) (Inr F)))
          (ufunc2 fl_add (ufunc2 fl_add (ufunc2 fl_add (lit 1) (Inr X1)) (Inr F))
             (ufunc2 fl_mul (Inr E)
                (ufunc2 fl_add (lit 1) (ufunc2 fl_div (Inr E) (lit 3))))))"

fun quartic_iterations :: "nat \<Rightarrow> pyval \<Rightarrow> pyval \<Rightarrow> pyval \<Rightarrow> py_error + pyval" where
  \<comment> \<open>\<open>for _ in range(iters)\<close>: the check, then the two assignments\<close>
  "quartic_iterations 0 X1 X2 F = Inr F"
| "quartic_iterations (Suc n) X1 X2 F =
     (case check_log_domain X1 F of
        Inl e \<Rightarrow> Inl e
      | Inr u \<Rightarrow>
          (case correction_E X1 X2 F of
             Inl e \<Rightarrow> Inl e
           | Inr E \<Rightarrow>
               (case update_F X1 E F of
                  Inl e \<Rightarrow> Inl e
                | Inr F' \<Rightarrow> quartic_iterations n X1 X2 F')))"

definition final_mapping :: "pyval \<Rightarrow> pyval \<Rightarrow> pyval \<Rightarrow> py_error + pyval" where
  \<comment> \<open>lines 86 to 91: \<open>f = (_A / F) ** 2\<close> and the choice of the returned value\<close>
  "final_mapping R K F =
     (case ufunc1 fl_square (ufunc2 fl_div (py_scalar const_A) (Inr F)) of
        Inl e \<Rightarrow> Inl e
      | Inr f \<Rightarrow>
          if shape_of f = [] \<and> np_isscalar R \<and> np_isscalar K then py_float f else Inr f)"

definition f_clamond ::
  "pyval \<Rightarrow> pyval \<Rightarrow> int \<Rightarrow> warning list \<Rightarrow> (py_error + pyval) \<times> warning list"
where
  \<comment> \<open>The last argument is the list of warnings issued so far; the solver returns it,
      extended by the warning it issues.\<close>
  "f_clamond R0 K0 iters ws =
     (let R = np_asarray R0; K = np_asarray K0 in
      if np_any (\<lambda>r. fl_le r (Fin 0)) R then (Inl (ValueError msg_R), ws)
      else if np_any (\<lambda>k. fl_lt k (Fin 0)) K then (Inl (ValueError msg_K), ws)
      else if iters < 0 then (Inl (ValueError msg_iters), ws)
      else
        let ws' = (if np_any (\<lambda>r. fl_lt r (Fin 2300)) R then ws @ [msg_turbulent] else ws) in
        (case ufunc2 fl_mul (ufunc2 fl_mul (Inr K) (Inr R)) (np_scalar const_C1) of
           Inl e \<Rightarrow> (Inl e, ws')
         | Inr X1 \<Rightarrow>
             (case ufunc2 fl_add (ufunc1 fl_log (Inr R)) (np_scalar const_C2) of
                Inl e \<Rightarrow> (Inl e, ws')
              | Inr X2 \<Rightarrow>
                  (case ufunc2 fl_sub (Inr X2) (lit 0.2) of
                     Inl e \<Rightarrow> (Inl e, ws')
                   | Inr F0 \<Rightarrow>
                       (case quartic_iterations (nat iters) X1 X2 F0 of
                          Inl e \<Rightarrow> (Inl e, ws')
                        | Inr F \<Rightarrow> (final_mapping R K F, ws'))))))"


section \<open>The arithmetic of one element\<close>

text \<open>
  The lines of the solver applied to a single pair of elements \<open>r\<close> of \<open>R\<close> and \<open>k\<close> of
  \<open>K\<close>. The array operations above apply exactly these operations at every index.
\<close>

definition elem_X1 :: "float64 \<Rightarrow> float64 \<Rightarrow> float64" where
  "elem_X1 k r = fl_mul (fl_mul k r) const_C1"

definition elem_X2 :: "float64 \<Rightarrow> float64" where
  "elem_X2 r = fl_add (fl_log r) const_C2"

definition elem_F0 :: "float64 \<Rightarrow> float64" where
  "elem_F0 r = fl_sub (elem_X2 r) (Fin 0.2)"

definition elem_E :: "float64 \<Rightarrow> float64 \<Rightarrow> float64 \<Rightarrow> float64" where
  "elem_E x1 x2 f =
     fl_div (fl_sub (fl_add (fl_log (fl_add x1 f)) f) x2) (fl_add (fl_add (Fin 1) x1) f)"

definition elem_update :: "float64 \<Rightarrow> float64 \<Rightarrow> float64 \<Rightarrow> float64" where
  "elem_update x1 e f =
     fl_sub f
       (fl_div
          (fl_mul
             (fl_mul (fl_add (fl_add (fl_add (Fin 1) x1) f) (fl_mul (Fin 0.5) e)) e)
             (fl_add x1 f))
          (fl_add (fl_add (fl_add (Fin 1) x1) f)
             (fl_mul e (fl_add (Fin 1) (fl_div e (Fin 3))))))"

definition elem_step :: "float64 \<Rightarrow> float64 \<Rightarrow> float64 \<Rightarrow> float64" where
  \<comment> \<open>one pass through the loop body, without its check\<close>
  "elem_step x1 x2 f = elem_update x1 (elem_E x1 x2 f) f"

definition elem_F :: "nat \<Rightarrow> float64 \<Rightarrow> float64 \<Rightarrow> float64" where
  \<comment> \<open>\<open>F\<close> after \<open>n\<close> passes\<close>
  "elem_F n r k = ((elem_step (elem_X1 k r) (elem_X2 r)) ^^ n) (elem_F0 r)"

definition elem_f :: "nat \<Rightarrow> float64 \<Rightarrow> float64 \<Rightarrow> float64" where
  "elem_f n r k = fl_square (fl_div const_A (elem_F n r k))"

definition log_domain_violated :: "float64 \<Rightarrow> float64 \<Rightarrow> bool" where
  \<comment> \<open>the condition of \<open>_check_log_domain\<close> at one element\<close>
  "log_domain_violated x1 f = fl_le (fl_add x1 f) (Fin 0)"

definition elem_domain_error :: "nat \<Rightarrow> float64 \<Rightarrow> float64 \<Rightarrow> bool" where
  \<comment> \<open>some check among those of the first \<open>n\<close> passes fails at this element\<close>
  "elem_domain_error n r k =
     list_ex (\<lambda>j. log_domain_violated (elem_X1 k r) (elem_F j r k)) [0..<n]"


section \<open>The scheme as the specification words it\<close>

text \<open>
  The formulas of the specification, in the order and with the constants it gives them:
  \<open>C1 = ln(10)/18.574\<close>, \<open>C2 = ln(ln(10)/5.02)\<close>, \<open>X1 = K*R*C1\<close>, \<open>X2 = ln(R) + C2\<close>,
  \<open>F = X2 - 0.2\<close>, then the correction \<open>E\<close> and the update of \<open>F\<close>, and \<open>f = (A/F)^2\<close> at
  the end, for a given \<open>A\<close>. They are read in the arithmetic of doubles.
\<close>

definition scheme_C1 :: float64 where
  "scheme_C1 = fl_div (fl_log (Fin 10)) (Fin 18.574)"

definition scheme_C2 :: float64 where
  "scheme_C2 = fl_log (fl_div (fl_log (Fin 10)) (Fin 5.02))"

definition scheme_X1 :: "float64 \<Rightarrow> float64 \<Rightarrow> float64" where
  "scheme_X1 K R = fl_mul (fl_mul K R) scheme_C1"

definition scheme_X2 :: "float64 \<Rightarrow> float64" where
  "scheme_X2 R = fl_add (fl_log R) scheme_C2"

definition scheme_F0 :: "float64 \<Rightarrow> float64" where
  "scheme_F0 R = fl_sub (scheme_X2 R) (Fin 0.2)"

definition scheme_E :: "float64 \<Rightarrow> float64 \<Rightarrow> float64 \<Rightarrow> float64" where
  "scheme_E X1 X2 F =
     fl_div (fl_sub (fl_add (fl_log (fl_add X1 F)) F) X2) (fl_add (fl_add (Fin 1) X1) F)"

definition scheme_refine :: "float64 \<Rightarrow> float64 \<Rightarrow> float64 \<Rightarrow> float64" where
  "scheme_refine X1 X2 F =
     (let E = scheme_E X1 X2 F
      in fl_sub F
           (fl_div
              (fl_mul
                 (fl_mul (fl_add (fl_add (fl_add (Fin 1) X1) F) (fl_mul (Fin 0.5) E)) E)
                 (fl_add X1 F))
              (fl_add (fl_add (fl_add (Fin 1) X1) F)
                 (fl_mul E (fl_add (Fin 1) (fl_div E (Fin 3)))))))"

definition scheme_F :: "nat \<Rightarrow> float64 \<Rightarrow> float64 \<Rightarrow> float64" where
  \<comment> \<open>\<open>F\<close> after \<open>n\<close> refinements\<close>
  "scheme_F n R K = ((scheme_refine (scheme_X1 K R) (scheme_X2 R)) ^^ n) (scheme_F0 R)"

definition scheme_f :: "float64 \<Rightarrow> float64 \<Rightarrow> float64" where
  "scheme_f A F = fl_square (fl_div A F)"

definition scheme_guard_fails :: "nat \<Rightarrow> float64 \<Rightarrow> float64 \<Rightarrow> bool" where
  \<comment> \<open>\<open>X1 + F \<le> 0\<close> at the start of one of the first \<open>n\<close> refinements\<close>
  "scheme_guard_fails n R K =
     list_ex (\<lambda>j. fl_le (fl_add (scheme_X1 K R) (scheme_F j R K)) (Fin 0)) [0..<n]"


section \<open>The scheme over the real numbers\<close>

text \<open>
  The same formulas over the real numbers. Where every value is finite the arithmetic of
  the model computes them; they serve to evaluate the solver at particular inputs.
\<close>

definition spec_C1 :: real where
  "spec_C1 = ln 10 / 18.574"

definition spec_C2 :: real where
  "spec_C2 = ln (ln 10 / 5.02)"

definition spec_X1 :: "real \<Rightarrow> real \<Rightarrow> real" where
  "spec_X1 K R = K * R * spec_C1"

definition spec_X2 :: "real \<Rightarrow> real" where
  "spec_X2 R = ln R + spec_C2"

definition spec_E :: "real \<Rightarrow> real \<Rightarrow> real \<Rightarrow> real" where
  "spec_E X1 X2 F = (ln (X1 + F) + F - X2) / (1 + X1 + F)"

definition spec_refine :: "real \<Rightarrow> real \<Rightarrow> real \<Rightarrow> real" where
  "spec_refine X1 X2 F =
     (let E = spec_E X1 X2 F
      in F - (1 + X1 + F + 0.5 * E) * E * (X1 + F) / (1 + X1 + F + E * (1 + E / 3)))"

definition spec_F :: "nat \<Rightarrow> real \<Rightarrow> real \<Rightarrow> real" where
  "spec_F n R K = ((spec_refine (spec_X1 K R) (spec_X2 R)) ^^ n) (spec_X2 R - 0.2)"

definition spec_checks_pass :: "nat \<Rightarrow> real \<Rightarrow> real \<Rightarrow> bool" where
  \<comment> \<open>\<open>X1 + F > 0\<close> at the start of each of the first \<open>n\<close> steps\<close>
  "spec_checks_pass n R K = list_all (\<lambda>j. 0 < spec_X1 K R + spec_F j R K) [0..<n]"


section \<open>The exponential series\<close>

fun exp_horner :: "nat \<Rightarrow> nat \<Rightarrow> real \<Rightarrow> real" where
  \<comment> \<open>\<open>n\<close> terms of the exponential series, from the term of index \<open>k\<close> on, in Horner form\<close>
  "exp_horner 0 k x = 0"
| "exp_horner (Suc n) k x = 1 + x / real (Suc k) * exp_horner n (Suc k) x"


section \<open>Reading an array operation element by element\<close>

definition elementwise :: "nat list \<Rightarrow> (nat \<Rightarrow> float64) \<Rightarrow> py_error + pyval \<Rightarrow> bool" where
  \<comment> \<open>the computation succeeded with a value of shape \<open>s\<close> whose element \<open>i\<close> is \<open>e i\<close>\<close>
  "elementwise s e v =
     (case v of Inl err \<Rightarrow> False
      | Inr a \<Rightarrow> shape_of a = s \<and> data_of a = map e [0..<prod_list s])"

definition viewwise :: "nat list \<Rightarrow> (nat \<Rightarrow> float64) \<Rightarrow> py_error + pyval \<Rightarrow> bool" where
  \<comment> \<open>the computation succeeded with a value that broadcasts to shape \<open>s\<close>, where its
      element \<open>i\<close> is \<open>e i\<close>\<close>
  "viewwise s e v =
     (case v of Inl err \<Rightarrow> False
      | Inr a \<Rightarrow>
          well_formed a \<and> np_broadcast_shapes (shape_of a) s = Some s \<and>
          np_broadcast_to a s = map e [0..<prod_list s])"


section \<open>Outcomes\<close>

definition is_invalid_argument :: "py_error \<Rightarrow> bool" where
  \<comment> \<open>one of the three \<open>ValueError\<close>s that the solver raises itself\<close>
  "is_invalid_argument e =
     (e = ValueError msg_R \<or> e = ValueError msg_K \<or> e = ValueError msg_iters)"

fun raised_while_computing :: "py_error + pyval \<Rightarrow> bool" where
  \<comment> \<open>no error, or one that only the arithmetic after the validation can raise\<close>
  "raised_while_computing (Inr v) = True"
| "raised_while_computing (Inl (ValueError m)) = (m = broadcast_msg)"
| "raised_while_computing (Inl (FloatingPointError m)) = (m = msg_log_domain)"
| "raised_while_computing (Inl (TypeError m)) = True"

fun fin_val :: "float64 \<Rightarrow> real" where
  \<comment> \<open>the number a finite double denotes\<close>
  "fin_val (Fin a) = a"
| "fin_val x = 0"

definition positive_finite :: "float64 \<Rightarrow> bool" where
  "positive_finite x = (is_finite x \<and> 0 < fin_val x)"

definition nonneg_finite :: "float64 \<Rightarrow> bool" where
  "nonneg_finite x = (is_finite x \<and> 0 \<le> fin_val x)"

definition broadcast_inputs :: "pyval \<Rightarrow> pyval \<Rightarrow> nat list \<Rightarrow> bool" where
  \<comment> \<open>two arrays as numpy builds them, whose shapes broadcast to \<open>s\<close>\<close>
  "broadcast_inputs R K s =
     (well_formed R \<and> well_formed K \<and> np_broadcast_shapes (shape_of K) (shape_of R) = Some s)"

definition passes_validation :: "pyval \<Rightarrow> pyval \<Rightarrow> int \<Rightarrow> bool" where
  \<comment> \<open>none of the three conditions of lines 52 to 57 holds\<close>
  "passes_validation R K iters =
     (\<not> np_any (\<lambda>r. fl_le r (Fin 0)) R \<and> \<not> np_any (\<lambda>k. fl_lt k (Fin 0)) K \<and> 0 \<le> iters)"

definition physical_inputs :: "pyval \<Rightarrow> pyval \<Rightarrow> nat list \<Rightarrow> bool" where
  \<comment> \<open>every element of \<open>R\<close> a positive number, every element of \<open>K\<close> a number \<open>\<ge> 0\<close>\<close>
  "physical_inputs R K s =
     (broadcast_inputs R K s \<and> list_all positive_finite (data_of R) \<and>
      list_all nonneg_finite (data_of K))"

definition number_at :: "pyval \<Rightarrow> nat list \<Rightarrow> nat \<Rightarrow> real" where
  \<comment> \<open>the number at index \<open>i\<close> of an array broadcast to shape \<open>s\<close>\<close>
  "number_at v s i = fin_val (np_broadcast_to v s ! i)"

definition literal_A :: real where
  \<comment> \<open>the literal of line 29, which the source comments as \<open>0.5*ln(10)\<close>\<close>
  "literal_A = 1.151292546497022842"


section \<open>Lists, shapes and broadcasting\<close>

lemma concat_chunks: "length xs = k * n \<Longrightarrow> concat (chunks n k xs) = xs"
  by (induction k arbitrary: xs) auto

lemma chunks_map: "chunks n k (map g xs) = map (map g) (chunks n k xs)"
  by (induction k arbitrary: xs) (auto simp: take_map drop_map)

lemma length_chunks: "length (chunks n k xs) = k"
  by (induction k arbitrary: xs) auto

lemma chunks_elem_length:
  "length xs = k * n \<Longrightarrow> ys \<in> set (chunks n k xs) \<Longrightarrow> length ys = n"
proof (induction k arbitrary: xs)
  case 0
  then show ?case by simp
next
  case (Suc k)
  have len: "length (drop n xs) = k * n" using Suc.prems(1) by simp
  from Suc.prems(2) have "ys = take n xs \<or> ys \<in> set (chunks n k (drop n xs))" by simp
  then show ?case
  proof
    assume "ys = take n xs"
    then show ?thesis using Suc.prems(1) by simp
  next
    assume "ys \<in> set (chunks n k (drop n xs))"
    then show ?thesis by (rule Suc.IH[OF len])
  qed
qed

lemma stretch_map: "stretch a t (map g xs) = map g (stretch a t xs)"
proof (induction a t xs rule: stretch.induct)
  case (1 a as t ts xs)
  show ?case
  proof (cases "a = t")
    case True
    have h: "map (stretch as ts \<circ> map g) (chunks (prod_list as) a xs)
        = map (map g \<circ> stretch as ts) (chunks (prod_list as) a xs)"
      by (rule map_cong[OF refl]) (simp add: "1.IH"(1)[OF True])
    show ?thesis using True by (simp add: chunks_map map_concat h[unfolded True])
  next
    case False
    then show ?thesis using "1.IH"(2) by (simp add: map_concat)
  qed
qed auto

lemma broadcast_dims_length:
  "broadcast_dims a b = Some s \<Longrightarrow> length a = length b \<and> length s = length b"
  by (induction a b arbitrary: s rule: broadcast_dims.induct) (auto split: if_splits)

lemma broadcast_dims_Nil_left: "broadcast_dims [] b = Some s \<longleftrightarrow> b = [] \<and> s = []"
  by (cases b) auto

lemma broadcast_dims_Nil_right: "broadcast_dims a [] = Some s \<longleftrightarrow> a = [] \<and> s = []"
  by (cases a) auto

lemma broadcast_dims_self: "broadcast_dims s s = Some s"
  by (induction s) auto

lemma broadcast_dims_left:
  "broadcast_dims a b = Some s \<Longrightarrow> broadcast_dims a s = Some s"
  by (induction a b arbitrary: s rule: broadcast_dims.induct) (auto split: if_splits)

lemma broadcast_dims_right:
  "broadcast_dims a b = Some s \<Longrightarrow> broadcast_dims b s = Some s"
  by (induction a b arbitrary: s rule: broadcast_dims.induct) (auto split: if_splits)

lemma broadcast_dims_sym:
  "broadcast_dims a s = Some s \<Longrightarrow> broadcast_dims s a = Some s"
  by (induction a s rule: broadcast_dims.induct) (auto split: if_splits)

lemma broadcast_dims_ones:
  "length s = n \<Longrightarrow> broadcast_dims (replicate n 1) s = Some s"
  by (induction s arbitrary: n) auto


lemma stretch_id: "length xs = prod_list s \<Longrightarrow> stretch s s xs = xs"
proof (induction s arbitrary: xs)
  case Nil
  then show ?case by simp
next
  case (Cons a s)
  have len: "length xs = a * prod_list s" using Cons.prems by simp
  have "map (stretch s s) (chunks (prod_list s) a xs) = map (\<lambda>ys. ys) (chunks (prod_list s) a xs)"
  proof (rule map_cong[OF refl])
    fix ys assume "ys \<in> set (chunks (prod_list s) a xs)"
    then have "length ys = prod_list s" by (rule chunks_elem_length[OF len])
    then show "stretch s s ys = ys" by (rule Cons.IH)
  qed
  then show ?case using len by (simp add: concat_chunks)
qed

lemma stretch_length:
  "broadcast_dims a t = Some t \<Longrightarrow> length xs = prod_list a \<Longrightarrow>
   length (stretch a t xs) = prod_list t"
proof (induction a t xs rule: stretch.induct)
  case (1 a as t ts xs)
  from "1.prems"(1) have bd: "broadcast_dims as ts = Some ts" and at: "a = t \<or> a = 1"
    by (auto split: if_splits)
  have len: "length xs = a * prod_list as" using "1.prems"(2) by simp
  show ?case
  proof (cases "a = t")
    case True
    have h: "map (length \<circ> stretch as ts) (chunks (prod_list as) a xs)
       = map (\<lambda>ys. prod_list ts) (chunks (prod_list as) a xs)"
    proof (rule map_cong[OF refl])
      fix ys assume "ys \<in> set (chunks (prod_list as) a xs)"
      then have "length ys = prod_list as" by (rule chunks_elem_length[OF len])
      then show "(length \<circ> stretch as ts) ys = prod_list ts"
        using "1.IH"(1)[OF True _ bd] \<open>ys \<in> set (chunks (prod_list as) a xs)\<close> by simp
    qed
    have "sum_list (map (length \<circ> stretch as ts) (chunks (prod_list as) a xs))
       = a * prod_list ts"
      unfolding h by (simp add: sum_list_triv length_chunks)
    then show ?thesis using True by (simp add: length_concat)
  next
    case False
    then have a1: "a = 1" using at by simp
    have "length (stretch as ts xs) = prod_list ts"
      using "1.IH"(2)[OF False bd] len a1 by simp
    then show ?thesis using False by (simp add: length_concat sum_list_replicate)
  qed
qed (simp_all add: broadcast_dims_Nil_left broadcast_dims_Nil_right)

lemma stretch_scalar:
  "length t = n \<Longrightarrow> stretch (replicate n 1) t [c] = replicate (prod_list t) c"
proof (induction t arbitrary: n)
  case Nil then show ?case by simp
next
  case (Cons a t)
  then obtain m where n: "n = Suc m" and m: "length t = m" by (cases n) auto
  have ih: "stretch (replicate m 1) t [c] = replicate (prod_list t) c" by (rule Cons.IH[OF m])
  show ?case
  proof (cases "a = 1")
    case True
    then show ?thesis using ih n by simp
  next
    case False
    have "concat (replicate a (replicate (prod_list t) c)) = replicate (a * prod_list t) c"
      by (induction a) (simp_all add: replicate_add)
    then show ?thesis using ih n False by simp
  qed
qed

lemma shape_wrap_result [simp]: "shape_of (wrap_result s d) = s"
  by (auto simp: wrap_result_def split: list.splits)

lemma data_wrap_result [simp]: "data_of (wrap_result s d) = d"
  by (auto simp: wrap_result_def split: list.splits)

lemma pad_shape_same [simp]: "pad_shape (length s) s = s"
  by (simp add: pad_shape_def)

lemma prod_list_pad_shape [simp]: "prod_list (pad_shape n s) = prod_list s"
  by (simp add: pad_shape_def)

lemma np_broadcast_shapes_self: "np_broadcast_shapes s s = Some s"
  by (simp add: np_broadcast_shapes_def broadcast_dims_self)

lemma np_broadcast_shapes_length:
  "np_broadcast_shapes a b = Some s \<Longrightarrow> length s = max (length a) (length b)"
  by (auto simp: np_broadcast_shapes_def Let_def pad_shape_def dest!: broadcast_dims_length)

lemma fits_dims:
  assumes "np_broadcast_shapes a s = Some s"
  shows "length a \<le> length s" and "broadcast_dims (pad_shape (length s) a) s = Some s"
proof -
  from np_broadcast_shapes_length[OF assms] show le: "length a \<le> length s" by simp
  then have "max (length a) (length s) = length s" by simp
  with assms show "broadcast_dims (pad_shape (length s) a) s = Some s"
    by (simp add: np_broadcast_shapes_def Let_def)
qed

lemma fits_sym:
  assumes "np_broadcast_shapes a s = Some s"
  shows "np_broadcast_shapes s a = Some s"
proof -
  have "max (length s) (length a) = length s" using fits_dims(1)[OF assms] by simp
  then show ?thesis
    using broadcast_dims_sym[OF fits_dims(2)[OF assms]]
    by (simp add: np_broadcast_shapes_def Let_def)
qed

lemma np_broadcast_shapes_fits:
  assumes "np_broadcast_shapes a b = Some s"
  shows "np_broadcast_shapes a s = Some s" and "np_broadcast_shapes b s = Some s"
proof -
  have len: "max (length a) (length b) = length s"
    by (rule np_broadcast_shapes_length[OF assms, symmetric])
  have bd: "broadcast_dims (pad_shape (length s) a) (pad_shape (length s) b) = Some s"
    using assms by (simp add: np_broadcast_shapes_def Let_def len)
  have "max (length a) (length s) = length s" "max (length b) (length s) = length s"
    using len by simp_all
  then show "np_broadcast_shapes a s = Some s" "np_broadcast_shapes b s = Some s"
    using broadcast_dims_left[OF bd] broadcast_dims_right[OF bd]
    by (simp_all add: np_broadcast_shapes_def Let_def)
qed

lemma np_broadcast_shapes_scalar: "np_broadcast_shapes [] s = Some s"
  by (simp add: np_broadcast_shapes_def pad_shape_def broadcast_dims_ones[unfolded One_nat_def])

lemma np_broadcast_to_length:
  assumes "well_formed a" "np_broadcast_shapes (shape_of a) s = Some s"
  shows "length (np_broadcast_to a s) = prod_list s"
  unfolding np_broadcast_to_def
  using assms(1) by (intro stretch_length fits_dims(2)[OF assms(2)]) (simp add: well_formed_def)

lemma np_broadcast_to_self:
  "length (data_of a) = prod_list (shape_of a) \<Longrightarrow> np_broadcast_to a (shape_of a) = data_of a"
  by (simp add: np_broadcast_to_def stretch_id)

lemma map2_tabulate:
  "map2 g (map a xs) (map b xs) = map (\<lambda>i. g (a i) (b i)) xs"
  by (induction xs) auto

lemma elementwise_viewwise:
  "elementwise s e v \<Longrightarrow> viewwise s e v"
  by (auto simp: elementwise_def viewwise_def well_formed_def np_broadcast_shapes_self
      np_broadcast_to_self split: sum.splits)

lemma ufunc1_elementwise:
  "elementwise s a A \<Longrightarrow> elementwise s (\<lambda>i. g (a i)) (ufunc1 g A)"
  by (auto simp: elementwise_def ufunc1_def split: sum.splits)

lemma ufunc2_elementwise_left:
  assumes "elementwise s a A" "viewwise s b B"
  shows "elementwise s (\<lambda>i. g (a i) (b i)) (ufunc2 g A B)"
proof -
  from assms(1) obtain x where A: "A = Inr x" and sx: "shape_of x = s"
    and dx: "data_of x = map a [0..<prod_list s]"
    by (auto simp: elementwise_def split: sum.splits)
  from assms(2) obtain y where B: "B = Inr y" and wy: "well_formed y"
    and fy: "np_broadcast_shapes (shape_of y) s = Some s"
    and dy: "np_broadcast_to y s = map b [0..<prod_list s]"
    by (auto simp: viewwise_def split: sum.splits)
  have bs: "np_broadcast_shapes (shape_of x) (shape_of y) = Some s"
    using fits_sym[OF fy] sx by simp
  have "np_broadcast_to x s = map a [0..<prod_list s]"
    using np_broadcast_to_self[of x] sx dx by simp
  then show ?thesis
    using A B bs dy by (simp add: ufunc2_def elementwise_def map2_tabulate)
qed

lemma ufunc2_elementwise_right:
  assumes "viewwise s a A" "elementwise s b B"
  shows "elementwise s (\<lambda>i. g (a i) (b i)) (ufunc2 g A B)"
proof -
  from assms(2) obtain x where B: "B = Inr x" and sx: "shape_of x = s"
    and dx: "data_of x = map b [0..<prod_list s]"
    by (auto simp: elementwise_def split: sum.splits)
  from assms(1) obtain y where A: "A = Inr y" and wy: "well_formed y"
    and fy: "np_broadcast_shapes (shape_of y) s = Some s"
    and dy: "np_broadcast_to y s = map a [0..<prod_list s]"
    by (auto simp: viewwise_def split: sum.splits)
  have bs: "np_broadcast_shapes (shape_of y) (shape_of x) = Some s"
    using fy sx by simp
  have "np_broadcast_to x s = map b [0..<prod_list s]"
    using np_broadcast_to_self[of x] sx dx by simp
  then show ?thesis
    using A B bs dy by (simp add: ufunc2_def elementwise_def map2_tabulate)
qed

lemma viewwise_scalar:
  "viewwise s (\<lambda>i. c) (Inr (PyFloat c))" "viewwise s (\<lambda>i. c) (Inr (NpFloat64 c))"
  by (simp_all add: viewwise_def well_formed_def np_broadcast_shapes_scalar np_broadcast_to_def
      pad_shape_def stretch_scalar[unfolded One_nat_def] map_replicate_const)

lemma viewwise_lit: "viewwise s (\<lambda>i. Fin c) (lit c)"
  by (simp add: lit_def viewwise_scalar)

lemma viewwise_np_scalar: "viewwise s (\<lambda>i. c) (np_scalar c)"
  by (simp add: np_scalar_def viewwise_scalar)

lemma viewwise_py_scalar: "viewwise s (\<lambda>i. c) (py_scalar c)"
  by (simp add: py_scalar_def viewwise_scalar)

lemma ufunc2_lit_left:
  "elementwise s b B \<Longrightarrow> elementwise s (\<lambda>i. g (Fin c) (b i)) (ufunc2 g (lit c) B)"
  by (rule ufunc2_elementwise_right[OF viewwise_lit])

lemma ufunc2_lit_right:
  "elementwise s a A \<Longrightarrow> elementwise s (\<lambda>i. g (a i) (Fin c)) (ufunc2 g A (lit c))"
  by (rule ufunc2_elementwise_left[OF _ viewwise_lit])

lemma ufunc2_elementwise:
  "elementwise s a A \<Longrightarrow> elementwise s b B \<Longrightarrow>
   elementwise s (\<lambda>i. g (a i) (b i)) (ufunc2 g A B)"
  by (rule ufunc2_elementwise_left[OF _ elementwise_viewwise])

lemma correction_E_elementwise:
  assumes "elementwise s x1 (Inr X1)" "viewwise s x2 (Inr X2)" "viewwise s f (Inr F)"
  shows "elementwise s (\<lambda>i. elem_E (x1 i) (x2 i) (f i)) (correction_E X1 X2 F)"
  unfolding correction_E_def elem_E_def
  by (intro ufunc2_elementwise ufunc2_elementwise_left[OF _ assms(2)]
      ufunc2_elementwise_left[OF _ assms(3)] ufunc1_elementwise ufunc2_lit_left assms(1))

lemma update_F_elementwise:
  assumes "elementwise s x1 (Inr X1)" "elementwise s e (Inr E)" "viewwise s f (Inr F)"
  shows "elementwise s (\<lambda>i. elem_update (x1 i) (e i) (f i)) (update_F X1 E F)"
  unfolding update_F_def elem_update_def
  apply (rule ufunc2_elementwise_right[OF assms(3)])
  apply (intro ufunc2_lit_left ufunc2_lit_right ufunc2_elementwise_left[OF _ assms(3)]
      ufunc2_elementwise assms(1) assms(2))
  done

lemma list_ex_tabulate: "list_ex P (map e [0..<n]) \<longleftrightarrow> (\<exists>i<n. P (e i))"
  by (auto simp: list_ex_iff)

lemma check_log_domain_elementwise:
  assumes "elementwise s x1 (Inr X1)" "viewwise s f (Inr F)"
  shows "check_log_domain X1 F =
    (if \<exists>i<prod_list s. log_domain_violated (x1 i) (f i)
     then Inl (FloatingPointError msg_log_domain) else Inr ())"
proof -
  have "elementwise s (\<lambda>i. fl_add (x1 i) (f i)) (ufunc2 fl_add (Inr X1) (Inr F))"
    by (rule ufunc2_elementwise_left[OF assms])
  then obtain y where y: "ufunc2 fl_add (Inr X1) (Inr F) = Inr y"
    and dy: "data_of y = map (\<lambda>i. fl_add (x1 i) (f i)) [0..<prod_list s]"
    by (auto simp: elementwise_def split: sum.splits)
  show ?thesis
    by (simp add: check_log_domain_def y np_any_def dy list_ex_tabulate log_domain_violated_def)
qed

lemma ex_less_Suc_shift: "(\<exists>j<Suc n. P j) \<longleftrightarrow> P 0 \<or> (\<exists>j<n. P (Suc j))"
  by (metis less_Suc_eq_0_disj)

lemma quartic_iterations_elementwise:
  assumes X1: "elementwise s x1 (Inr X1)" and X2: "viewwise s x2 (Inr X2)"
    and F: "viewwise s f (Inr F)"
  shows "if \<exists>i<prod_list s. \<exists>j<n. log_domain_violated (x1 i) ((elem_step (x1 i) (x2 i) ^^ j) (f i))
     then quartic_iterations n X1 X2 F = Inl (FloatingPointError msg_log_domain)
     else viewwise s (\<lambda>i. (elem_step (x1 i) (x2 i) ^^ n) (f i)) (quartic_iterations n X1 X2 F) \<and>
          (0 < n \<longrightarrow>
            elementwise s (\<lambda>i. (elem_step (x1 i) (x2 i) ^^ n) (f i)) (quartic_iterations n X1 X2 F))"
  using F
proof (induction n arbitrary: F f)
  case 0
  then show ?case by simp
next
  case (Suc n)
  let ?bad = "\<lambda>g j i. log_domain_violated (x1 i) ((elem_step (x1 i) (x2 i) ^^ j) (g i))"
  let ?f' = "\<lambda>i. elem_step (x1 i) (x2 i) (f i)"
  have chk: "check_log_domain X1 F =
    (if \<exists>i<prod_list s. log_domain_violated (x1 i) (f i)
     then Inl (FloatingPointError msg_log_domain) else Inr ())"
    by (rule check_log_domain_elementwise[OF X1 Suc.prems])
  have split: "(\<exists>i<prod_list s. \<exists>j<Suc n. ?bad f j i) \<longleftrightarrow>
    (\<exists>i<prod_list s. log_domain_violated (x1 i) (f i)) \<or> (\<exists>i<prod_list s. \<exists>j<n. ?bad ?f' j i)"
    by (auto simp: ex_less_Suc_shift funpow_swap1)
  show ?case
  proof (cases "\<exists>i<prod_list s. log_domain_violated (x1 i) (f i)")
    case True
    then show ?thesis unfolding split by (simp add: chk)
  next
    case False
    have E: "elementwise s (\<lambda>i. elem_E (x1 i) (x2 i) (f i)) (correction_E X1 X2 F)"
      by (rule correction_E_elementwise[OF X1 X2 Suc.prems])
    then obtain Ev where Ev: "correction_E X1 X2 F = Inr Ev"
      by (auto simp: elementwise_def split: sum.splits)
    have U: "elementwise s ?f' (update_F X1 Ev F)"
      using update_F_elementwise[OF X1 E[unfolded Ev] Suc.prems]
      by (simp add: elem_step_def)
    then obtain F' where F': "update_F X1 Ev F = Inr F'"
      by (auto simp: elementwise_def split: sum.splits)
    have step: "quartic_iterations (Suc n) X1 X2 F = quartic_iterations n X1 X2 F'"
      by (simp add: chk Ev F' False)
    have full: "elementwise s ?f' (Inr F')" using U F' by simp
    note IH = Suc.IH[OF elementwise_viewwise[OF full]]
    show ?thesis
    proof (cases "\<exists>i<prod_list s. \<exists>j<n. ?bad ?f' j i")
      case True
      then show ?thesis using IH unfolding split step by simp
    next
      case nobad: False
      have v: "viewwise s (\<lambda>i. (elem_step (x1 i) (x2 i) ^^ n) (?f' i)) (quartic_iterations n X1 X2 F')"
        and e: "0 < n \<longrightarrow> elementwise s (\<lambda>i. (elem_step (x1 i) (x2 i) ^^ n) (?f' i)) (quartic_iterations n X1 X2 F')"
        using IH nobad by simp_all
      have e': "elementwise s (\<lambda>i. (elem_step (x1 i) (x2 i) ^^ n) (?f' i)) (quartic_iterations n X1 X2 F')"
      proof (cases n)
        case 0
        then show ?thesis using full by simp
      next
        case (Suc m)
        then show ?thesis using e by simp
      qed
      have neg: "\<not> (\<exists>i<prod_list s. \<exists>j<Suc n. ?bad f j i)"
        unfolding split using False nobad by blast
      have e'': "elementwise s (\<lambda>i. (elem_step (x1 i) (x2 i) ^^ Suc n) (f i))
          (quartic_iterations (Suc n) X1 X2 F)"
        unfolding step using e' by (simp add: funpow_swap1)
      show ?thesis
        by (simp only: neg if_False) (simp add: e'' elementwise_viewwise[OF e''] del: funpow.simps quartic_iterations.simps)
    qed
  qed
qed

lemma np_any_asarray [simp]: "np_any P (np_asarray v) = np_any P v"
  by (simp add: np_any_def np_asarray_def)

lemma shape_asarray [simp]: "shape_of (np_asarray v) = shape_of v"
  by (simp add: np_asarray_def)

lemma data_asarray [simp]: "data_of (np_asarray v) = data_of v"
  by (simp add: np_asarray_def)

lemma np_isscalar_asarray [simp]: "\<not> np_isscalar (np_asarray v)"
  by (simp add: np_asarray_def)

lemma np_broadcast_to_asarray [simp]: "np_broadcast_to (np_asarray v) s = np_broadcast_to v s"
  by (simp add: np_broadcast_to_def)

lemma well_formed_asarray [simp]: "well_formed (np_asarray v) = well_formed v"
  by (simp add: well_formed_def)

lemma tabulate_nth: "length xs = n \<Longrightarrow> map (\<lambda>i. xs ! i) [0..<n] = xs"
  by (auto simp: map_nth)

lemma tabulate_map_nth: "length xs = n \<Longrightarrow> map (\<lambda>i. h (xs ! i)) [0..<n] = map h xs"
  by (auto intro!: nth_equalityI)

lemma value_elementwise:
  "well_formed v \<Longrightarrow> elementwise (shape_of v) (\<lambda>i. data_of v ! i) (Inr v)"
  by (simp add: elementwise_def well_formed_def tabulate_nth)

lemma value_viewwise:
  assumes "well_formed v" "np_broadcast_shapes (shape_of v) s = Some s"
  shows "viewwise s (\<lambda>i. np_broadcast_to v s ! i) (Inr v)"
  using assms np_broadcast_to_length[OF assms]
  by (simp add: viewwise_def tabulate_nth)

lemma elementwise_to_view:
  assumes e: "elementwise t (\<lambda>j. h (d ! j)) v" and len: "length d = prod_list t"
    and fits: "np_broadcast_shapes t s = Some s"
  shows "viewwise s (\<lambda>i. h (stretch (pad_shape (length s) t) s d ! i)) v"
proof -
  from e obtain a where v: "v = Inr a" and sa: "shape_of a = t"
    and da: "data_of a = map h d"
    by (auto simp: elementwise_def tabulate_map_nth[OF len] split: sum.splits)
  have wf: "well_formed a" by (simp add: well_formed_def sa da len)
  have "length (stretch (pad_shape (length s) t) s d) = prod_list s"
    by (rule stretch_length[OF fits_dims(2)[OF fits]]) (simp add: len)
  then have "map (\<lambda>i. h (stretch (pad_shape (length s) t) s d ! i)) [0..<prod_list s]
     = map h (stretch (pad_shape (length s) t) s d)"
    by (simp add: tabulate_map_nth)
  then show ?thesis
    using wf fits by (simp add: viewwise_def v sa da np_broadcast_to_def stretch_map)
qed

lemma ufunc2_broadcast:
  assumes "well_formed x" "well_formed y"
    and bs: "np_broadcast_shapes (shape_of x) (shape_of y) = Some s"
  shows "elementwise s (\<lambda>i. g (np_broadcast_to x s ! i) (np_broadcast_to y s ! i))
    (ufunc2 g (Inr x) (Inr y))"
proof -
  have lx: "length (np_broadcast_to x s) = prod_list s"
    by (rule np_broadcast_to_length[OF assms(1) np_broadcast_shapes_fits(1)[OF bs]])
  have ly: "length (np_broadcast_to y s) = prod_list s"
    by (rule np_broadcast_to_length[OF assms(2) np_broadcast_shapes_fits(2)[OF bs]])
  have "map2 g (np_broadcast_to x s) (np_broadcast_to y s)
    = map (\<lambda>i. g (np_broadcast_to x s ! i) (np_broadcast_to y s ! i)) [0..<prod_list s]"
    using lx ly by (auto intro!: nth_equalityI)
  then show ?thesis by (simp add: ufunc2_def bs elementwise_def)
qed

lemma elementwise_result:
  "elementwise s e (ufunc1 g A) \<Longrightarrow> A = Inr x \<Longrightarrow>
   ufunc1 g A = Inr (wrap_result s (map e [0..<prod_list s]))"
  by (auto simp: elementwise_def ufunc1_def)

lemma elem_domain_error_iff:
  "elem_domain_error n r k \<longleftrightarrow>
   (\<exists>j<n. log_domain_violated (elem_X1 k r) ((elem_step (elem_X1 k r) (elem_X2 r) ^^ j) (elem_F0 r)))"
  by (auto simp: elem_domain_error_def elem_F_def list_ex_iff)

lemma f_clamond_valid:
  assumes "\<not> np_any (\<lambda>r. fl_le r (Fin 0)) R0" "\<not> np_any (\<lambda>k. fl_lt k (Fin 0)) K0" "0 \<le> iters"
  shows "fst (f_clamond R0 K0 iters ws) =
    (case ufunc2 fl_mul (ufunc2 fl_mul (Inr (np_asarray K0)) (Inr (np_asarray R0))) (np_scalar const_C1) of
       Inl e \<Rightarrow> Inl e
     | Inr X1 \<Rightarrow>
        (case ufunc2 fl_add (ufunc1 fl_log (Inr (np_asarray R0))) (np_scalar const_C2) of
           Inl e \<Rightarrow> Inl e
         | Inr X2 \<Rightarrow>
            (case ufunc2 fl_sub (Inr X2) (lit 0.2) of
               Inl e \<Rightarrow> Inl e
             | Inr F0 \<Rightarrow>
                (case quartic_iterations (nat iters) X1 X2 F0 of
                   Inl e \<Rightarrow> Inl e
                 | Inr F \<Rightarrow> final_mapping (np_asarray R0) (np_asarray K0) F))))"
  using assms by (simp add: f_clamond_def Let_def split: sum.splits)

lemma f_clamond_setup:
  assumes wfR: "well_formed R0" and wfK: "well_formed K0"
    and bc: "np_broadcast_shapes (shape_of K0) (shape_of R0) = Some s"
    and valid: "\<not> np_any (\<lambda>r. fl_le r (Fin 0)) R0" "\<not> np_any (\<lambda>k. fl_lt k (Fin 0)) K0"
      "0 \<le> iters"
  obtains X1v X2v F0v where
    "elementwise s (\<lambda>i. elem_X1 (np_broadcast_to K0 s ! i) (np_broadcast_to R0 s ! i)) (Inr X1v)"
    "elementwise (shape_of R0) (\<lambda>j. elem_X2 (data_of R0 ! j)) (Inr X2v)"
    "elementwise (shape_of R0) (\<lambda>j. elem_F0 (data_of R0 ! j)) (Inr F0v)"
    "fst (f_clamond R0 K0 iters ws) =
       (case quartic_iterations (nat iters) X1v X2v F0v of
          Inl e \<Rightarrow> Inl e
        | Inr F \<Rightarrow> final_mapping (np_asarray R0) (np_asarray K0) F)"
proof -
  let ?R = "np_asarray R0" and ?K = "np_asarray K0"
  let ?r = "\<lambda>i. np_broadcast_to R0 s ! i" and ?k = "\<lambda>i. np_broadcast_to K0 s ! i"
  have KR: "elementwise s (\<lambda>i. fl_mul (?k i) (?r i)) (ufunc2 fl_mul (Inr ?K) (Inr ?R))"
    using ufunc2_broadcast[of ?K ?R s fl_mul] wfR wfK bc by simp
  have X1: "elementwise s (\<lambda>i. elem_X1 (?k i) (?r i))
      (ufunc2 fl_mul (ufunc2 fl_mul (Inr ?K) (Inr ?R)) (np_scalar const_C1))"
    unfolding elem_X1_def by (rule ufunc2_elementwise_left[OF KR viewwise_np_scalar])
  then obtain X1v where
    X1v: "ufunc2 fl_mul (ufunc2 fl_mul (Inr ?K) (Inr ?R)) (np_scalar const_C1) = Inr X1v"
    by (auto simp: elementwise_def split: sum.splits)
  have Rl: "elementwise (shape_of R0) (\<lambda>j. data_of R0 ! j) (Inr ?R)"
    using value_elementwise[of ?R] wfR by simp
  have X2l: "elementwise (shape_of R0) (\<lambda>j. elem_X2 (data_of R0 ! j))
      (ufunc2 fl_add (ufunc1 fl_log (Inr ?R)) (np_scalar const_C2))"
    unfolding elem_X2_def
    by (rule ufunc2_elementwise_left[OF ufunc1_elementwise[OF Rl] viewwise_np_scalar])
  then obtain X2v where
    X2v: "ufunc2 fl_add (ufunc1 fl_log (Inr ?R)) (np_scalar const_C2) = Inr X2v"
    by (auto simp: elementwise_def split: sum.splits)
  have F0l: "elementwise (shape_of R0) (\<lambda>j. elem_F0 (data_of R0 ! j))
      (ufunc2 fl_sub (Inr X2v) (lit 0.2))"
    unfolding elem_F0_def by (rule ufunc2_lit_right[OF X2l[unfolded X2v]])
  then obtain F0v where F0v: "ufunc2 fl_sub (Inr X2v) (lit 0.2) = Inr F0v"
    by (auto simp: elementwise_def split: sum.splits)
  have "fst (f_clamond R0 K0 iters ws) =
     (case quartic_iterations (nat iters) X1v X2v F0v of
        Inl e \<Rightarrow> Inl e | Inr F \<Rightarrow> final_mapping ?R ?K F)"
    by (simp only: f_clamond_valid[OF valid] X1v X2v F0v sum.case)
  then show thesis
    using X1[unfolded X1v] X2l[unfolded X2v] F0l[unfolded F0v] that by blast
qed

lemma final_mapping_elementwise:
  assumes "elementwise s e (Inr Fv)"
  shows "final_mapping (np_asarray R0) (np_asarray K0) Fv =
    Inr (wrap_result s (map (\<lambda>i. fl_square (fl_div const_A (e i))) [0..<prod_list s]))"
proof -
  have q: "elementwise s (\<lambda>i. fl_div const_A (e i)) (ufunc2 fl_div (py_scalar const_A) (Inr Fv))"
    by (rule ufunc2_elementwise_right[OF viewwise_py_scalar assms])
  then obtain qv where qv: "ufunc2 fl_div (py_scalar const_A) (Inr Fv) = Inr qv"
    by (auto simp: elementwise_def split: sum.splits)
  have "elementwise s (\<lambda>i. fl_square (fl_div const_A (e i)))
     (ufunc1 fl_square (ufunc2 fl_div (py_scalar const_A) (Inr Fv)))"
    by (rule ufunc1_elementwise[OF q])
  from elementwise_result[OF this qv] show ?thesis
    by (simp add: final_mapping_def)
qed

lemma f_clamond_elementwise:
  assumes wfR: "well_formed R0" and wfK: "well_formed K0"
    and bc: "np_broadcast_shapes (shape_of K0) (shape_of R0) = Some s"
    and valid: "\<not> np_any (\<lambda>r. fl_le r (Fin 0)) R0" "\<not> np_any (\<lambda>k. fl_lt k (Fin 0)) K0"
    and pos: "0 < iters"
  shows "fst (f_clamond R0 K0 iters ws) =
    (if \<exists>i<prod_list s.
          elem_domain_error (nat iters) (np_broadcast_to R0 s ! i) (np_broadcast_to K0 s ! i)
     then Inl (FloatingPointError msg_log_domain)
     else Inr (wrap_result s
            (map (\<lambda>i. elem_f (nat iters) (np_broadcast_to R0 s ! i) (np_broadcast_to K0 s ! i))
               [0..<prod_list s])))"
proof -
  let ?r = "\<lambda>i. np_broadcast_to R0 s ! i" and ?k = "\<lambda>i. np_broadcast_to K0 s ! i"
  let ?x1 = "\<lambda>i. elem_X1 (?k i) (?r i)" and ?x2 = "\<lambda>i. elem_X2 (?r i)"
  let ?f0 = "\<lambda>i. elem_F0 (?r i)"
  let ?n = "nat iters"
  have nonneg: "0 \<le> iters" using pos by simp
  obtain X1v X2v F0v where X1: "elementwise s ?x1 (Inr X1v)"
    and X2l: "elementwise (shape_of R0) (\<lambda>j. elem_X2 (data_of R0 ! j)) (Inr X2v)"
    and F0l: "elementwise (shape_of R0) (\<lambda>j. elem_F0 (data_of R0 ! j)) (Inr F0v)"
    and unfold: "fst (f_clamond R0 K0 iters ws) =
       (case quartic_iterations ?n X1v X2v F0v of
          Inl e \<Rightarrow> Inl e
        | Inr F \<Rightarrow> final_mapping (np_asarray R0) (np_asarray K0) F)"
    by (rule f_clamond_setup[OF wfR wfK bc valid nonneg])
  have fitsR: "np_broadcast_shapes (shape_of R0) s = Some s"
    by (rule np_broadcast_shapes_fits(2)[OF bc])
  have lenR: "length (data_of R0) = prod_list (shape_of R0)"
    using wfR by (simp add: well_formed_def)
  have X2: "viewwise s ?x2 (Inr X2v)"
    using elementwise_to_view[OF X2l lenR fitsR] by (simp add: np_broadcast_to_def)
  have F0: "viewwise s ?f0 (Inr F0v)"
    using elementwise_to_view[OF F0l lenR fitsR] by (simp add: np_broadcast_to_def)
  note loop = quartic_iterations_elementwise[OF X1 X2 F0, of ?n]
  have bad_iff:
    "(\<exists>i<prod_list s. \<exists>j<?n.
        log_domain_violated (?x1 i) ((elem_step (?x1 i) (?x2 i) ^^ j) (?f0 i)))
     \<longleftrightarrow> (\<exists>i<prod_list s. elem_domain_error ?n (?r i) (?k i))"
    by (simp add: elem_domain_error_iff)
  show ?thesis
  proof (cases "\<exists>i<prod_list s. elem_domain_error ?n (?r i) (?k i)")
    case True
    then have "quartic_iterations ?n X1v X2v F0v = Inl (FloatingPointError msg_log_domain)"
      using loop unfolding bad_iff by simp
    then show ?thesis by (simp only: unfold True if_True sum.case)
  next
    case False
    have npos: "0 < ?n" using pos by simp
    have "elementwise s (\<lambda>i. (elem_step (?x1 i) (?x2 i) ^^ ?n) (?f0 i))
        (quartic_iterations ?n X1v X2v F0v)"
      using loop npos False unfolding bad_iff by (simp only: if_False simp_thms)
    then have Fe: "elementwise s (\<lambda>i. elem_F ?n (?r i) (?k i)) (quartic_iterations ?n X1v X2v F0v)"
      by (simp add: elem_F_def)
    then obtain Fv where Fv: "quartic_iterations ?n X1v X2v F0v = Inr Fv"
      by (auto simp: elementwise_def split: sum.splits)
    have "final_mapping (np_asarray R0) (np_asarray K0) Fv =
      Inr (wrap_result s (map (\<lambda>i. elem_f ?n (?r i) (?k i)) [0..<prod_list s]))"
      using final_mapping_elementwise[OF Fe[unfolded Fv]] by (simp add: elem_f_def)
    then show ?thesis by (simp only: unfold Fv False if_False sum.case)
  qed
qed

lemma f_clamond_zero_iters:
  assumes wfR: "well_formed R0" and wfK: "well_formed K0"
    and bc: "np_broadcast_shapes (shape_of K0) (shape_of R0) = Some s"
    and valid: "\<not> np_any (\<lambda>r. fl_le r (Fin 0)) R0" "\<not> np_any (\<lambda>k. fl_lt k (Fin 0)) K0"
  shows "fst (f_clamond R0 K0 0 ws) =
    Inr (wrap_result (shape_of R0)
          (map (\<lambda>r. fl_square (fl_div const_A (elem_F0 r))) (data_of R0)))"
proof -
  have nonneg: "(0::int) \<le> 0" by simp
  obtain X1v X2v F0v
    where F0l: "elementwise (shape_of R0) (\<lambda>j. elem_F0 (data_of R0 ! j)) (Inr F0v)"
    and unfold: "fst (f_clamond R0 K0 0 ws) =
       (case quartic_iterations (nat 0) X1v X2v F0v of
          Inl e \<Rightarrow> Inl e
        | Inr F \<Rightarrow> final_mapping (np_asarray R0) (np_asarray K0) F)"
    by (rule f_clamond_setup[OF wfR wfK bc valid nonneg])
  have lenR: "length (data_of R0) = prod_list (shape_of R0)"
    using wfR by (simp add: well_formed_def)
  have "map (\<lambda>i. fl_square (fl_div const_A (elem_F0 (data_of R0 ! i)))) [0..<prod_list (shape_of R0)]
      = map (\<lambda>r. fl_square (fl_div const_A (elem_F0 r))) (data_of R0)"
    by (rule tabulate_map_nth[OF lenR])
  then show ?thesis
    using final_mapping_elementwise[OF F0l, of R0 K0] by (simp add: unfold)
qed


section \<open>Which errors the arithmetic can raise\<close>

lemma raised_ufunc1: "raised_while_computing a \<Longrightarrow> raised_while_computing (ufunc1 g a)"
  by (cases a) (auto simp: ufunc1_def)

lemma raised_ufunc2:
  "raised_while_computing a \<Longrightarrow> raised_while_computing b \<Longrightarrow> raised_while_computing (ufunc2 g a b)"
  by (cases a; cases b) (auto simp: ufunc2_def split: option.splits)

lemma raised_consts [simp]:
  "raised_while_computing (lit c)" "raised_while_computing (np_scalar x)"
  "raised_while_computing (py_scalar x)"
  by (simp_all add: lit_def np_scalar_def py_scalar_def)

lemma raised_check: "check_log_domain X1 F = Inl e \<Longrightarrow> raised_while_computing (Inl e)"
  using raised_ufunc2[of "Inr X1" "Inr F" fl_add]
  by (auto simp: check_log_domain_def split: sum.splits if_splits)

lemma raised_correction_E: "raised_while_computing (correction_E X1 X2 F)"
  unfolding correction_E_def by (intro raised_ufunc2 raised_ufunc1) simp_all

lemma raised_update_F: "raised_while_computing (update_F X1 E F)"
  unfolding update_F_def by (intro raised_ufunc2 raised_ufunc1) simp_all

lemma raised_quartic_iterations: "raised_while_computing (quartic_iterations n X1 X2 F)"
proof (induction n arbitrary: F)
  case 0
  then show ?case by simp
next
  case (Suc n)
  show ?case
    using raised_check[of X1 F] raised_correction_E[of X1 X2 F] Suc
    by (auto split: sum.splits dest: raised_check)
       (use raised_update_F in \<open>metis\<close>)+
qed

lemma raised_final_mapping: "raised_while_computing (final_mapping R K F)"
proof -
  have "raised_while_computing (ufunc1 fl_square (ufunc2 fl_div (py_scalar const_A) (Inr F)))"
    by (intro raised_ufunc2 raised_ufunc1) simp_all
  then show ?thesis
    by (auto simp: final_mapping_def py_float_def split: sum.splits list.splits)
qed

lemma raised_f_clamond_valid:
  assumes "\<not> np_any (\<lambda>r. fl_le r (Fin 0)) R0" "\<not> np_any (\<lambda>k. fl_lt k (Fin 0)) K0" "0 \<le> iters"
  shows "raised_while_computing (fst (f_clamond R0 K0 iters ws))"
proof -
  have a: "raised_while_computing
     (ufunc2 fl_mul (ufunc2 fl_mul (Inr (np_asarray K0)) (Inr (np_asarray R0))) (np_scalar const_C1))"
    by (intro raised_ufunc2) simp_all
  have b: "raised_while_computing (ufunc2 fl_add (ufunc1 fl_log (Inr (np_asarray R0))) (np_scalar const_C2))"
    by (intro raised_ufunc2 raised_ufunc1) simp_all
  have c: "\<And>X2. raised_while_computing (ufunc2 fl_sub (Inr X2) (lit 0.2))"
    by (intro raised_ufunc2) simp_all
  show ?thesis
    unfolding f_clamond_valid[OF assms]
    using a b c raised_quartic_iterations raised_final_mapping
    by (auto split: sum.splits) metis+
qed

lemma not_invalid_if_raised_while_computing:
  "raised_while_computing (Inl e) \<Longrightarrow> \<not> is_invalid_argument e"
  by (cases e) (auto simp: is_invalid_argument_def msg_R_def msg_K_def msg_iters_def broadcast_msg_def)


section \<open>One element over the real numbers\<close>

lemma ln10_pos: "0 < ln (10::real)"
  by simp

lemma const_LOG10_eq: "const_LOG10 = Fin (ln 10)"
  by (simp add: const_LOG10_def)

lemma const_C1_eq: "const_C1 = Fin spec_C1"
  by (simp add: const_C1_def const_LOG10_eq spec_C1_def)

lemma const_C2_eq: "const_C2 = Fin spec_C2"
proof -
  have "ln (1 / 5.02) + ln (ln 10) = ln (ln 10 / (5.02::real))"
    using ln10_pos by (simp add: ln_div ln_mult)
  then show ?thesis
    using ln10_pos by (simp add: const_C2_def const_LOG10_eq spec_C2_def)
qed

lemma elem_X1_Fin: "elem_X1 (Fin k) (Fin r) = Fin (spec_X1 k r)"
  by (simp add: elem_X1_def const_C1_eq spec_X1_def)

lemma elem_X2_Fin: "0 < r \<Longrightarrow> elem_X2 (Fin r) = Fin (spec_X2 r)"
  by (simp add: elem_X2_def const_C2_eq spec_X2_def)

lemma elem_F0_Fin: "0 < r \<Longrightarrow> elem_F0 (Fin r) = Fin (spec_X2 r - 0.2)"
  by (simp add: elem_F0_def elem_X2_Fin fl_sub_def)

lemma quartic_denominator_pos:
  fixes y e :: real
  assumes "0 < y"
  shows "0 < 1 + y + e * (1 + e / 3)"
proof -
  have "1 + y + e * (1 + e / 3) = y + ((2 * e + 3)\<^sup>2 + 3) / 12"
    by (simp add: power2_eq_square algebra_simps)
  moreover have "0 < ((2 * e + 3)\<^sup>2 + 3) / 12"
    by (simp add: add_nonneg_pos)
  ultimately show ?thesis using assms by linarith
qed

lemma elem_step_Fin:
  assumes "0 < x1 + f"
  shows "elem_step (Fin x1) (Fin x2) (Fin f) = Fin (spec_refine x1 x2 f)"
proof -
  have d1: "1 + x1 + f \<noteq> 0" using assms by linarith
  have E: "elem_E (Fin x1) (Fin x2) (Fin f) = Fin (spec_E x1 x2 f)"
    using assms d1 by (simp add: elem_E_def spec_E_def fl_sub_def)
  have "0 < 1 + (x1 + f) + spec_E x1 x2 f * (1 + spec_E x1 x2 f / 3)"
    by (rule quartic_denominator_pos[OF assms])
  then have d2: "1 + x1 + f + spec_E x1 x2 f * (1 + spec_E x1 x2 f / 3) \<noteq> 0"
    by (simp add: add.assoc)
  show ?thesis
    unfolding elem_step_def E
    using d2 by (simp add: elem_update_def spec_refine_def Let_def fl_sub_def)
qed

lemma spec_checks_pass_Suc:
  "spec_checks_pass (Suc n) R K \<longleftrightarrow> spec_checks_pass n R K \<and> 0 < spec_X1 K R + spec_F n R K"
  by (simp add: spec_checks_pass_def)

lemma spec_F_Suc: "spec_F (Suc n) R K = spec_refine (spec_X1 K R) (spec_X2 R) (spec_F n R K)"
  by (simp add: spec_F_def)

lemma elem_F_Suc: "elem_F (Suc n) r k = elem_step (elem_X1 k r) (elem_X2 r) (elem_F n r k)"
  by (simp add: elem_F_def)

lemma elem_F_Fin:
  "0 < r \<Longrightarrow> spec_checks_pass n r k \<Longrightarrow> elem_F n (Fin r) (Fin k) = Fin (spec_F n r k)"
proof (induction n)
  case 0
  then show ?case by (simp add: elem_F_def spec_F_def elem_F0_Fin)
next
  case (Suc n)
  then have ih: "elem_F n (Fin r) (Fin k) = Fin (spec_F n r k)"
    and pos: "0 < spec_X1 k r + spec_F n r k"
    by (simp_all add: spec_checks_pass_Suc)
  show ?case
    unfolding elem_F_Suc spec_F_Suc ih elem_X1_Fin elem_X2_Fin[OF Suc.prems(1)]
    by (rule elem_step_Fin[OF pos])
qed

lemma elem_domain_error_Suc:
  "elem_domain_error (Suc n) r k \<longleftrightarrow>
   elem_domain_error n r k \<or> log_domain_violated (elem_X1 k r) (elem_F n r k)"
  by (simp add: elem_domain_error_def)

lemma elem_domain_error_Fin:
  "0 < r \<Longrightarrow> elem_domain_error n (Fin r) (Fin k) \<longleftrightarrow> \<not> spec_checks_pass n r k"
proof (induction n)
  case 0
  then show ?case by (simp add: elem_domain_error_def spec_checks_pass_def)
next
  case (Suc n)
  show ?case
  proof (cases "spec_checks_pass n r k")
    case True
    then show ?thesis
      using Suc elem_F_Fin[OF Suc.prems True]
      by (simp add: elem_domain_error_Suc spec_checks_pass_Suc log_domain_violated_def
          elem_X1_Fin not_less)
  next
    case False
    then show ?thesis using Suc by (simp add: elem_domain_error_Suc spec_checks_pass_Suc)
  qed
qed


lemma fl_square_quotient_zero:
  "a \<noteq> 0 \<Longrightarrow> fl_square (fl_div (Fin a) (Fin 0)) = PInf"
  by (simp add: fl_square_def signed_inf_def)

lemma const_A_eq: "const_A = Fin literal_A"
  by (simp add: const_A_def literal_A_def)

lemma literal_A_nonzero: "literal_A \<noteq> 0"
  by (simp add: literal_A_def)

lemma chunks_elem_subset: "ys \<in> set (chunks n k xs) \<Longrightarrow> set ys \<subseteq> set xs"
proof (induction k arbitrary: xs)
  case 0
  then show ?case by simp
next
  case (Suc k)
  from Suc.prems have "ys = take n xs \<or> ys \<in> set (chunks n k (drop n xs))" by simp
  then show ?case
  proof
    assume "ys = take n xs"
    then show ?thesis by (simp add: set_take_subset)
  next
    assume "ys \<in> set (chunks n k (drop n xs))"
    then have "set ys \<subseteq> set (drop n xs)" by (rule Suc.IH)
    then show ?thesis using set_drop_subset[of n xs] by blast
  qed
qed

lemma set_stretch: "set (stretch a t xs) \<subseteq> set xs"
proof (induction a t xs rule: stretch.induct)
  case (1 a as t ts xs)
  show ?case
  proof (cases "a = t")
    case True
    have "\<And>ys. ys \<in> set (chunks (prod_list as) a xs) \<Longrightarrow> set (stretch as ts ys) \<subseteq> set xs"
      using "1.IH"(1)[OF True] chunks_elem_subset by blast
    then show ?thesis using True by auto
  next
    case False
    then show ?thesis using "1.IH"(2)[OF False] by (auto split: if_splits)
  qed
qed simp_all

lemma broadcast_elem_in_data:
  "i < length (np_broadcast_to v s) \<Longrightarrow> np_broadcast_to v s ! i \<in> set (data_of v)"
  using set_stretch[of "pad_shape (length s) (shape_of v)" s "data_of v"]
  by (auto simp: np_broadcast_to_def dest: nth_mem)

lemma broadcast_elem_prop:
  assumes "broadcast_inputs R K s" "i < prod_list s"
  shows "np_broadcast_to R s ! i \<in> set (data_of R)" "np_broadcast_to K s ! i \<in> set (data_of K)"
proof -
  from assms(1) have wf: "well_formed R" "well_formed K"
    and bc: "np_broadcast_shapes (shape_of K) (shape_of R) = Some s"
    by (simp_all add: broadcast_inputs_def)
  have "length (np_broadcast_to R s) = prod_list s"
    by (rule np_broadcast_to_length[OF wf(1) np_broadcast_shapes_fits(2)[OF bc]])
  then show "np_broadcast_to R s ! i \<in> set (data_of R)"
    using assms(2) by (intro broadcast_elem_in_data) simp
  have "length (np_broadcast_to K s) = prod_list s"
    by (rule np_broadcast_to_length[OF wf(2) np_broadcast_shapes_fits(1)[OF bc]])
  then show "np_broadcast_to K s ! i \<in> set (data_of K)"
    using assms(2) by (intro broadcast_elem_in_data) simp
qed

lemma positive_finite_Fin: "positive_finite x \<Longrightarrow> x = Fin (fin_val x) \<and> 0 < fin_val x"
  by (cases x) (simp_all add: positive_finite_def)

lemma nonneg_finite_Fin: "nonneg_finite x \<Longrightarrow> x = Fin (fin_val x) \<and> 0 \<le> fin_val x"
  by (cases x) (simp_all add: nonneg_finite_def)

lemma positive_finite_not_le: "positive_finite x \<Longrightarrow> \<not> fl_le x (Fin 0)"
  by (cases x) (simp_all add: positive_finite_def)

lemma nonneg_finite_not_lt: "nonneg_finite x \<Longrightarrow> \<not> fl_lt x (Fin 0)"
  by (cases x) (simp_all add: nonneg_finite_def)

lemma physical_elems:
  assumes "physical_inputs R K s" "i < prod_list s"
  shows "np_broadcast_to R s ! i = Fin (number_at R s i)" "0 < number_at R s i"
    "np_broadcast_to K s ! i = Fin (number_at K s i)" "0 \<le> number_at K s i"
proof -
  from assms(1) have b: "broadcast_inputs R K s"
    and pR: "\<And>x. x \<in> set (data_of R) \<Longrightarrow> positive_finite x"
    and pK: "\<And>x. x \<in> set (data_of K) \<Longrightarrow> nonneg_finite x"
    by (simp_all add: physical_inputs_def list_all_iff)
  from positive_finite_Fin[OF pR[OF broadcast_elem_prop(1)[OF b assms(2)]]]
  show "np_broadcast_to R s ! i = Fin (number_at R s i)" "0 < number_at R s i"
    by (simp_all add: number_at_def)
  from nonneg_finite_Fin[OF pK[OF broadcast_elem_prop(2)[OF b assms(2)]]]
  show "np_broadcast_to K s ! i = Fin (number_at K s i)" "0 \<le> number_at K s i"
    by (simp_all add: number_at_def)
qed

lemma physical_passes_validation:
  assumes "physical_inputs R K s"
  shows "\<not> np_any (\<lambda>r. fl_le r (Fin 0)) R" "\<not> np_any (\<lambda>k. fl_lt k (Fin 0)) K"
proof -
  from assms have pR: "\<And>x. x \<in> set (data_of R) \<Longrightarrow> positive_finite x"
    and pK: "\<And>x. x \<in> set (data_of K) \<Longrightarrow> nonneg_finite x"
    by (simp_all add: physical_inputs_def list_all_iff)
  show "\<not> np_any (\<lambda>r. fl_le r (Fin 0)) R"
  proof
    assume "np_any (\<lambda>r. fl_le r (Fin 0)) R"
    then obtain x where "x \<in> set (data_of R)" "fl_le x (Fin 0)"
      by (auto simp: np_any_def list_ex_iff)
    then show False using positive_finite_not_le[OF pR[of x]] by simp
  qed
  show "\<not> np_any (\<lambda>k. fl_lt k (Fin 0)) K"
  proof
    assume "np_any (\<lambda>k. fl_lt k (Fin 0)) K"
    then obtain x where "x \<in> set (data_of K)" "fl_lt x (Fin 0)"
      by (auto simp: np_any_def list_ex_iff)
    then show False using nonneg_finite_not_lt[OF pK[of x]] by simp
  qed
qed


section \<open>Bounds on the log-domain checks\<close>

lemma ln2_ge_half: "1 / 2 \<le> ln (2::real)"
proof -
  have "ln (1 / 2) \<le> (1 / 2 :: real) - 1" by (rule ln_le_minus_one) simp
  moreover have "ln (1 / 2 :: real) = - ln 2" by (simp add: ln_div)
  ultimately show ?thesis by simp
qed

lemma ln10_ge_one: "1 \<le> ln (10::real)"
proof -
  have "ln (4::real) = ln 2 + ln 2" using ln_mult[of 2 "2::real"] by simp
  then have "1 \<le> ln (4::real)" using ln2_ge_half by simp
  moreover have "ln (4::real) \<le> ln 10" by simp
  ultimately show ?thesis by linarith
qed

lemma ln10_le_five: "ln (10::real) \<le> 5"
proof -
  have "ln (10::real) = ln 2 + ln 5" using ln_mult[of 2 "5::real"] by simp
  moreover have "ln (2::real) \<le> 2 - 1" by (rule ln_le_minus_one) simp
  moreover have "ln (5::real) \<le> 5 - 1" by (rule ln_le_minus_one) simp
  ultimately show ?thesis by simp
qed

lemma spec_C2_neg: "spec_C2 < 0"
proof -
  have "ln 10 / 5.02 < (1::real)" using ln10_le_five by simp
  moreover have "0 < ln 10 / (5.02::real)" by simp
  ultimately show ?thesis unfolding spec_C2_def by (rule ln_less_zero[rotated])
qed

lemma spec_C2_lower: "- ln 5.02 \<le> spec_C2"
proof -
  have "ln (1 / 5.02) \<le> ln (ln 10 / (5.02::real))"
    using ln10_ge_one by (subst ln_le_cancel_iff) (simp_all add: divide_right_mono)
  moreover have "ln (1 / 5.02 :: real) = - ln 5.02" by (simp add: ln_div)
  ultimately show ?thesis unfolding spec_C2_def by linarith
qed

lemma spec_C1_pos: "0 < spec_C1"
  by (simp add: spec_C1_def)

lemma low_R_fails:
  assumes "0 < r" "r \<le> 1"
  shows "\<not> spec_checks_pass (Suc n) r 0"
proof -
  have "ln r \<le> 0" using assms by simp
  then have "spec_X1 0 r + spec_F 0 r 0 < 0"
    using spec_C2_neg by (simp add: spec_X1_def spec_F_def spec_X2_def)
  then have "\<not> spec_checks_pass (Suc 0) r 0"
    by (simp add: spec_checks_pass_def)
  moreover have "spec_checks_pass (Suc n) r 0 \<Longrightarrow> spec_checks_pass (Suc 0) r 0"
    by (induction n) (simp_all add: spec_checks_pass_Suc)
  ultimately show ?thesis by blast
qed

lemma second_check_passes:
  fixes y :: real
  assumes y: "0 < x1 + f" and E0: "0 \<le> spec_E x1 x2 f" and E1: "spec_E x1 x2 f \<le> 1"
  shows "0 < x1 + spec_refine x1 x2 f"
proof -
  define e where "e = spec_E x1 x2 f"
  define y where "y = x1 + f"
  define D where "D = 1 + y + e * (1 + e / 3)"
  have D: "0 < D" unfolding D_def using y by (intro quartic_denominator_pos) (simp add: y_def)
  have "0 \<le> y * (1 - e)" using y E1 by (simp add: y_def e_def)
  moreover have "e * e \<le> 1" using E0 E1 by (simp add: e_def mult_le_one)
  ultimately have N: "0 < 1 + y * (1 - e) - e * e / 6" by linarith
  have "x1 + spec_refine x1 x2 f = y - (1 + y + 0.5 * e) * e * y / D"
    by (simp add: spec_refine_def Let_def e_def y_def D_def algebra_simps)
  also have "\<dots> = y * (1 + y * (1 - e) - e * e / 6) / D"
    using D by (simp add: D_def field_simps)
  finally show ?thesis using N D y by (simp add: y_def)
qed

lemma first_iterate_large:
  assumes r: "100 \<le> r" and k: "0 \<le> k"
  shows "4 / 3 \<le> spec_X1 k r + spec_F 0 r k"
proof -
  have "ln (16::real) = ln 4 + ln 4" using ln_mult[of 4 "4::real"] by simp
  moreover have "ln (4::real) = ln 2 + ln 2" using ln_mult[of 2 "2::real"] by simp
  ultimately have l16: "2 \<le> ln (16::real)" using ln2_ge_half by simp
  have "ln (16 * 5.02 :: real) \<le> ln r" using r by (subst ln_le_cancel_iff) simp_all
  moreover have "ln (16 * 5.02 :: real) = ln 16 + ln 5.02" using ln_mult[of 16 "5.02::real"] by simp
  ultimately have "2 + ln 5.02 \<le> ln r" using l16 by simp
  then have "1.8 \<le> spec_F 0 r k"
    using spec_C2_lower by (simp add: spec_F_def spec_X2_def)
  moreover have "0 \<le> spec_X1 k r"
    using r k spec_C1_pos by (simp add: spec_X1_def)
  ultimately show ?thesis by simp
qed

lemma turbulent_checks_pass:
  assumes r: "100 \<le> r" and k: "0 \<le> k"
  shows "spec_checks_pass 2 r k"
proof -
  let ?x1 = "spec_X1 k r" and ?x2 = "spec_X2 r"
  let ?f = "spec_F 0 r k"
  have f: "?f = ?x2 - 0.2" by (simp add: spec_F_def)
  have y: "4 / 3 \<le> ?x1 + ?f" by (rule first_iterate_large[OF r k])
  then have ypos: "0 < ?x1 + ?f" by simp
  have "ln (3 / 4) \<le> (3 / 4 :: real) - 1" by (rule ln_le_minus_one) simp
  moreover have "ln (3 / 4 :: real) = - ln (4 / 3)" using ln_div[of 3 "4::real"] ln_div[of 4 "3::real"] by simp
  ultimately have "1 / 4 \<le> ln (4 / 3 :: real)" by simp
  moreover have "ln (4 / 3 :: real) \<le> ln (?x1 + ?f)" using y ypos by (subst ln_le_cancel_iff) simp_all
  ultimately have lnlow: "0.2 \<le> ln (?x1 + ?f)" by simp
  have lnup: "ln (?x1 + ?f) \<le> ?x1 + ?f - 1" by (rule ln_le_minus_one[OF ypos])
  have E0: "0 \<le> spec_E ?x1 ?x2 ?f"
    using lnlow ypos by (simp add: spec_E_def f)
  have E1: "spec_E ?x1 ?x2 ?f \<le> 1"
    using lnup ypos by (simp add: spec_E_def f field_simps)
  have "0 < ?x1 + spec_refine ?x1 ?x2 ?f"
    by (rule second_check_passes[OF ypos E0 E1])
  then have "0 < ?x1 + spec_F (Suc 0) r k" by (simp add: spec_F_Suc)
  then show ?thesis
    using ypos by (simp add: spec_checks_pass_def numeral_2_eq_2)
qed


section \<open>The solver on numeric inputs\<close>

lemma f_clamond_physical:
  assumes phys: "physical_inputs R K s" and pos: "0 < iters"
  shows "fst (f_clamond R K iters ws) =
    (if \<forall>i<prod_list s. spec_checks_pass (nat iters) (number_at R s i) (number_at K s i)
     then Inr (wrap_result s
            (map (\<lambda>i. fl_square (fl_div const_A (Fin (spec_F (nat iters) (number_at R s i) (number_at K s i)))))
               [0..<prod_list s]))
     else Inl (FloatingPointError msg_log_domain))"
proof -
  let ?n = "nat iters"
  let ?r = "\<lambda>i. np_broadcast_to R s ! i" and ?k = "\<lambda>i. np_broadcast_to K s ! i"
  from phys have b: "well_formed R" "well_formed K"
    "np_broadcast_shapes (shape_of K) (shape_of R) = Some s"
    by (simp_all add: physical_inputs_def broadcast_inputs_def)
  note gc = f_clamond_elementwise[OF b physical_passes_validation[OF phys] pos, of ws]
  have err: "elem_domain_error ?n (?r i) (?k i) \<longleftrightarrow> \<not> spec_checks_pass ?n (number_at R s i) (number_at K s i)"
    if "i < prod_list s" for i
    using physical_elems[OF phys that] elem_domain_error_Fin[of "number_at R s i" ?n "number_at K s i"]
    by simp
  show ?thesis
  proof (cases "\<forall>i<prod_list s. spec_checks_pass ?n (number_at R s i) (number_at K s i)")
    case True
    then have no: "\<not> (\<exists>i<prod_list s. elem_domain_error ?n (?r i) (?k i))"
      using err by blast
    have eq: "map (\<lambda>i. elem_f ?n (?r i) (?k i)) [0..<prod_list s] =
       map (\<lambda>i. fl_square (fl_div const_A (Fin (spec_F ?n (number_at R s i) (number_at K s i))))) [0..<prod_list s]"
    proof (rule map_cong[OF refl])
      fix i assume "i \<in> set [0..<prod_list s]"
      then have i: "i < prod_list s" by simp
      show "elem_f ?n (?r i) (?k i) =
         fl_square (fl_div const_A (Fin (spec_F ?n (number_at R s i) (number_at K s i))))"
        using physical_elems[OF phys i] True i
          elem_F_Fin[of "number_at R s i" ?n "number_at K s i"]
        by (simp add: elem_f_def)
    qed
    show ?thesis unfolding gc if_not_P[OF no] eq by (simp only: if_P[OF True])
  next
    case False
    then have "\<exists>i<prod_list s. elem_domain_error ?n (?r i) (?k i)"
      using err by blast
    then show ?thesis unfolding gc by (simp only: if_P if_not_P[OF False])
  qed
qed

lemma scalar_inputs:
  "broadcast_inputs (PyFloat r) (PyFloat k) []"
  "np_broadcast_to (PyFloat x) [] = [x]"
  "wrap_result [] [x] = NpFloat64 x"
  by (simp_all add: broadcast_inputs_def well_formed_def np_broadcast_shapes_def pad_shape_def
      np_broadcast_to_def wrap_result_def)

lemma scalar_physical:
  "0 < r \<Longrightarrow> 0 \<le> k \<Longrightarrow> physical_inputs (PyFloat (Fin r)) (PyFloat (Fin k)) []"
  by (simp add: physical_inputs_def scalar_inputs positive_finite_def nonneg_finite_def)

lemma f_clamond_scalar:
  assumes "0 < r" "0 \<le> k" "0 < iters"
  shows "fst (f_clamond (PyFloat (Fin r)) (PyFloat (Fin k)) iters ws) =
    (if spec_checks_pass (nat iters) r k
     then Inr (NpFloat64 (fl_square (fl_div const_A (Fin (spec_F (nat iters) r k)))))
     else Inl (FloatingPointError msg_log_domain))"
  using f_clamond_physical[OF scalar_physical[OF assms(1,2)] assms(3), of ws]
  by (simp add: number_at_def scalar_inputs)

lemma f_clamond_warning:
  "snd (f_clamond R K iters ws) =
    (if passes_validation R K iters \<and> np_any (\<lambda>r. fl_lt r (Fin 2300)) R
     then ws @ [msg_turbulent] else ws)"
  by (simp add: f_clamond_def Let_def passes_validation_def split: sum.splits)


lemma array_inputs:
  assumes "well_formed (NdArray sh d)"
  shows "np_broadcast_shapes (shape_of (PyFloat k)) (shape_of (NdArray sh d)) = Some sh"
    "np_broadcast_to (NdArray sh d) sh = d"
    "length d = prod_list sh"
  using assms np_broadcast_to_self[of "NdArray sh d"]
  by (simp_all add: np_broadcast_shapes_scalar well_formed_def)


section \<open>Validation of the arguments\<close>

text \<open>
  Claim C3. The solver raises one of its three argument errors exactly when some element of
  \<open>R\<close> is \<open>\<le> 0\<close>, or some element of \<open>K\<close> is \<open>< 0\<close>, or \<open>iters < 0\<close>. In each of
  these cases the call ends with the error alone: nothing has been computed, no warning has
  been issued, and no value is returned. The error for \<open>R\<close> takes precedence over the one
  for \<open>K\<close>, and that one over the one for \<open>iters\<close>. The \<open>ValueError\<close> that numpy raises
  for shapes that do not broadcast carries another message and is not among the three.
\<close>

theorem invalid_argument_exactly_when:
  "((\<exists>e. fst (f_clamond R K iters ws) = Inl e \<and> is_invalid_argument e) \<longleftrightarrow>
     ((\<exists>r \<in> set (data_of R). fl_le r (Fin 0)) \<or> (\<exists>k \<in> set (data_of K). fl_lt k (Fin 0)) \<or>
      iters < 0)) \<and>
   (((\<exists>r \<in> set (data_of R). fl_le r (Fin 0)) \<or> (\<exists>k \<in> set (data_of K). fl_lt k (Fin 0)) \<or>
        iters < 0) \<longrightarrow>
     f_clamond R K iters ws =
       (Inl (if \<exists>r \<in> set (data_of R). fl_le r (Fin 0) then ValueError msg_R
             else if \<exists>k \<in> set (data_of K). fl_lt k (Fin 0) then ValueError msg_K
             else ValueError msg_iters), ws))"
proof -
  let ?badR = "\<exists>r \<in> set (data_of R). fl_le r (Fin 0)"
  let ?badK = "\<exists>k \<in> set (data_of K). fl_lt k (Fin 0)"
  have R: "np_any (\<lambda>r. fl_le r (Fin 0)) R = ?badR" by (simp add: np_any_def list_ex_iff)
  have K: "np_any (\<lambda>k. fl_lt k (Fin 0)) K = ?badK" by (simp add: np_any_def list_ex_iff)
  have second: "(?badR \<or> ?badK \<or> iters < 0) \<longrightarrow>
     f_clamond R K iters ws =
       (Inl (if ?badR then ValueError msg_R else if ?badK then ValueError msg_K
             else ValueError msg_iters), ws)"
    unfolding R[symmetric] K[symmetric] by (simp add: f_clamond_def Let_def)
  have first: "(\<exists>e. fst (f_clamond R K iters ws) = Inl e \<and> is_invalid_argument e) \<longleftrightarrow>
     (?badR \<or> ?badK \<or> iters < 0)"
  proof
    assume "?badR \<or> ?badK \<or> iters < 0"
    with second show "\<exists>e. fst (f_clamond R K iters ws) = Inl e \<and> is_invalid_argument e"
      by (auto simp: is_invalid_argument_def)
  next
    assume err: "\<exists>e. fst (f_clamond R K iters ws) = Inl e \<and> is_invalid_argument e"
    show "?badR \<or> ?badK \<or> iters < 0"
    proof (rule ccontr)
      assume "\<not> (?badR \<or> ?badK \<or> iters < 0)"
      then have "raised_while_computing (fst (f_clamond R K iters ws))"
        using raised_f_clamond_valid[of R K iters ws] R K by simp
      with err show False
        using not_invalid_if_raised_while_computing by auto
    qed
  qed
  from first second show ?thesis by (rule conjI)
qed

theorem invalid_argument_witness:
  "(\<exists>r \<in> set (data_of (PyFloat (Fin 0))). fl_le r (Fin 0)) \<and>
   f_clamond (PyFloat (Fin 0)) (PyFloat (Fin 0.01)) 2 [] = (Inl (ValueError msg_R), []) \<and>
   f_clamond (PyFloat (Fin 700000)) (PyFloat (Fin (- 0.001))) 2 [] = (Inl (ValueError msg_K), []) \<and>
   f_clamond (PyFloat (Fin 700000)) (PyFloat (Fin 0.01)) (- 1) [] = (Inl (ValueError msg_iters), [])"
  using invalid_argument_exactly_when[of "PyFloat (Fin 0)" "PyFloat (Fin 0.01)" 2 "[]"]
    invalid_argument_exactly_when[of "PyFloat (Fin 700000)" "PyFloat (Fin (- 0.001))" 2 "[]"]
    invalid_argument_exactly_when[of "PyFloat (Fin 700000)" "PyFloat (Fin 0.01)" "- 1" "[]"]
  by simp


section \<open>The constants of the scheme\<close>

lemma scheme_C1_eq: "scheme_C1 = const_C1"
  by (simp add: scheme_C1_def const_C1_def const_LOG10_def)

lemma scheme_C2_eq: "scheme_C2 = const_C2"
proof -
  have "0 < ln (10::real)" by simp
  then have "scheme_C2 = Fin spec_C2"
    by (simp add: scheme_C2_def spec_C2_def)
  then show ?thesis by (simp add: const_C2_eq)
qed

lemma scheme_refine_eq: "scheme_refine = elem_step"
  by (intro ext) (simp only: scheme_refine_def elem_step_def elem_update_def scheme_E_def
      elem_E_def Let_def)

lemma scheme_F0_eq: "scheme_F0 = elem_F0"
  by (intro ext) (simp only: scheme_F0_def elem_F0_def scheme_X2_def elem_X2_def scheme_C2_eq)

lemma scheme_F_eq: "scheme_F n r k = elem_F n r k"
  by (simp only: scheme_F_def elem_F_def scheme_refine_eq scheme_X1_def elem_X1_def
      scheme_X2_def elem_X2_def scheme_F0_def elem_F0_def scheme_C1_eq scheme_C2_eq)

lemma scheme_guard_fails_eq: "scheme_guard_fails n r k = elem_domain_error n r k"
  by (simp only: scheme_guard_fails_def elem_domain_error_def log_domain_violated_def
      scheme_F_eq scheme_X1_def elem_X1_def scheme_C1_eq)

text \<open>
  The literal \<open>_A\<close> against \<open>0.5*ln(10)\<close>. The logarithm of 10 is enclosed to 19 digits by
  34 terms of the exponential series, evaluated in Horner form with every partial result
  rounded outwards to 26 decimal places.
\<close>

lemma exp_horner_sum: "exp_horner n k x = (\<Sum>m<n. x ^ m * fact k / fact (m + k))"
proof (induction n arbitrary: k)
  case 0
  show ?case by simp
next
  case (Suc n)
  have "(\<Sum>m<Suc n. x ^ m * fact k / fact (m + k)) =
      1 + (\<Sum>m<n. x ^ Suc m * fact k / fact (Suc m + k))"
    unfolding sum.lessThan_Suc_shift by simp
  also have "(\<Sum>m<n. x ^ Suc m * fact k / fact (Suc m + k)) =
      (\<Sum>m<n. x / real (Suc k) * (x ^ m * fact (Suc k) / fact (m + Suc k)))"
    by (rule sum.cong[OF refl]) simp
  also have "\<dots> = x / real (Suc k) * (\<Sum>m<n. x ^ m * fact (Suc k) / fact (m + Suc k))"
    by (simp only: sum_distrib_left)
  finally show ?case by (simp only: exp_horner.simps Suc.IH)
qed

lemma exp_horner_lower:
  assumes "0 \<le> x"
  shows "exp_horner n 0 x \<le> exp x"
proof -
  obtain t where "exp x = (\<Sum>m<n. x ^ m / fact m) + exp t / fact n * x ^ n"
    using Maclaurin_exp_le[of x n] by blast
  moreover have "0 \<le> exp t / fact n * x ^ n" using assms by simp
  ultimately show ?thesis by (simp add: exp_horner_sum)
qed

lemma exp_horner_upper:
  assumes x: "0 \<le> x" and e: "x ^ n / fact n \<le> e" and e1: "e < 1"
  shows "exp x * (1 - e) \<le> exp_horner n 0 x"
proof -
  obtain t where t: "\<bar>t\<bar> \<le> \<bar>x\<bar>"
    and eq: "exp x = (\<Sum>m<n. x ^ m / fact m) + exp t / fact n * x ^ n"
    using Maclaurin_exp_le[of x n] by blast
  have "exp t \<le> exp x" using t x by simp
  then have "exp t * (x ^ n / fact n) \<le> exp x * e"
    using e x by (intro mult_mono) simp_all
  then have "exp t / fact n * x ^ n \<le> exp x * e" by (simp add: field_simps)
  with eq have "exp x \<le> exp_horner n 0 x + exp x * e" by (simp add: exp_horner_sum)
  then show ?thesis by (simp add: algebra_simps)
qed

lemma horner_le:
  assumes "exp_horner n' k' x \<le> u" and "0 \<le> x" and "n = Suc n'" and "k' = Suc k"
    and "1 + x / real k' * u \<le> u'"
  shows "exp_horner n k x \<le> u'"
proof -
  have "x / real k' * exp_horner n' k' x \<le> x / real k' * u"
    using assms(1,2) by (intro mult_left_mono) simp_all
  then show ?thesis using assms(3-5) by simp
qed

lemma horner_ge:
  assumes "exp_horner n' k' x \<ge> u" and "0 \<le> x" and "n = Suc n'" and "k' = Suc k"
    and "1 + x / real k' * u \<ge> u'"
  shows "exp_horner n k x \<ge> u'"
proof -
  have "x / real k' * exp_horner n' k' x \<ge> x / real k' * u"
    using assms(1,2) by (intro mult_left_mono) simp_all
  then show ?thesis using assms(3-5) by simp
qed

lemma ln10_lower: "2302585092994045683 / 1000000000000000000 \<le> ln (10::real)"
proof -
  have u34: "exp_horner 0 34 (2302585092994045683 / 1000000000000000000) \<le> 0" by simp
  have u33: "exp_horner 1 33 (2302585092994045683 / 1000000000000000000) \<le> 1"
    by (rule horner_le[OF u34]) simp_all
  have u32: "exp_horner 2 32 (2302585092994045683 / 1000000000000000000) \<le> 26744382646207610365909091 / 25000000000000000000000000"
    by (rule horner_le[OF u33]) simp_all
  have u31: "exp_horner 3 31 (2302585092994045683 / 1000000000000000000) \<le> 107697652100310786509931217 / 100000000000000000000000000"
    by (rule horner_le[OF u32]) simp_all
  have u30: "exp_horner 4 30 (2302585092994045683 / 1000000000000000000) \<le> 26999862969972858804226711 / 25000000000000000000000000"
    by (rule horner_le[OF u31]) simp_all
  have u29: "exp_horner 5 29 (2302585092994045683 / 1000000000000000000) \<le> 108289264265005526073883527 / 100000000000000000000000000"
    by (rule horner_le[OF u30]) simp_all
  have u28: "exp_horner 6 28 (2302585092994045683 / 1000000000000000000) \<le> 21719622383640651981332527 / 20000000000000000000000000"
    by (rule horner_le[OF u29]) simp_all
  have u27: "exp_horner 7 27 (2302585092994045683 / 1000000000000000000) \<le> 27232646371697802089474317 / 25000000000000000000000000"
    by (rule horner_le[OF u28]) simp_all
  have u26: "exp_horner 8 26 (2302585092994045683 / 1000000000000000000) \<le> 10928970156714811027893953 / 10000000000000000000000000"
    by (rule horner_le[OF u27]) simp_all
  have u25: "exp_horner 9 25 (2302585092994045683 / 1000000000000000000) \<le> 5483940072396698522545077 / 5000000000000000000000000"
    by (rule horner_le[OF u26]) simp_all
  have u24: "exp_horner 10 24 (2302585092994045683 / 1000000000000000000) \<le> 110101790929258660546261893 / 100000000000000000000000000"
    by (rule horner_le[OF u25]) simp_all
  have u23: "exp_horner 11 23 (2302585092994045683 / 1000000000000000000) \<le> 27640820234433937795307389 / 25000000000000000000000000"
    by (rule horner_le[OF u24]) simp_all
  have u22: "exp_horner 12 22 (2302585092994045683 / 1000000000000000000) \<le> 111068754892162742305208391 / 100000000000000000000000000"
    by (rule horner_le[OF u23]) simp_all
  have u21: "exp_horner 13 21 (2302585092994045683 / 1000000000000000000) \<le> 27906196128546629708938069 / 25000000000000000000000000"
    by (rule horner_le[OF u22]) simp_all
  have u20: "exp_horner 14 20 (2302585092994045683 / 1000000000000000000) \<le> 112239312611001832187652989 / 100000000000000000000000000"
    by (rule horner_le[OF u21]) simp_all
  have u19: "exp_horner 15 19 (2302585092994045683 / 1000000000000000000) \<le> 28230507100824892726797867 / 25000000000000000000000000"
    by (rule horner_le[OF u20]) simp_all
  have u18: "exp_horner 16 18 (2302585092994045683 / 1000000000000000000) \<le> 113684872593267779496357859 / 100000000000000000000000000"
    by (rule horner_le[OF u19]) simp_all
  have u17: "exp_horner 17 17 (2302585092994045683 / 1000000000000000000) \<le> 22908545477024285838399997 / 20000000000000000000000000"
    by (rule horner_le[OF u18]) simp_all
  have u16: "exp_horner 18 16 (2302585092994045683 / 1000000000000000000) \<le> 57757187546701807327748783 / 50000000000000000000000000"
    by (rule horner_le[OF u17]) simp_all
  have u15: "exp_horner 19 15 (2302585092994045683 / 1000000000000000000) \<le> 932990839058296918265351 / 800000000000000000000000"
    by (rule horner_le[OF u16]) simp_all
  have u14: "exp_horner 20 14 (2302585092994045683 / 1000000000000000000) \<le> 117902423315963677656264897 / 100000000000000000000000000"
    by (rule horner_le[OF u15]) simp_all
  have u13: "exp_horner 21 13 (2302585092994045683 / 1000000000000000000) \<le> 2387829089078873663853259 / 2000000000000000000000000"
    by (rule horner_le[OF u14]) simp_all
  have u12: "exp_horner 22 12 (2302585092994045683 / 1000000000000000000) \<le> 24229368973177358237138931 / 20000000000000000000000000"
    by (rule horner_le[OF u13]) simp_all
  have u11: "exp_horner 23 11 (2302585092994045683 / 1000000000000000000) \<le> 123245909920954430240991917 / 100000000000000000000000000"
    by (rule horner_le[OF u12]) simp_all
  have u10: "exp_horner 24 10 (2302585092994045683 / 1000000000000000000) \<le> 125798563177861512198963053 / 100000000000000000000000000"
    by (rule horner_le[OF u11]) simp_all
  have u9: "exp_horner 25 9 (2302585092994045683 / 1000000000000000000) \<le> 128966189629341358108446447 / 100000000000000000000000000"
    by (rule horner_le[OF u10]) simp_all
  have u8: "exp_horner 26 8 (2302585092994045683 / 1000000000000000000) \<le> 132995069526751633445949807 / 100000000000000000000000000"
    by (rule horner_le[OF u9]) simp_all
  have u7: "exp_horner 27 7 (2302585092994045683 / 1000000000000000000) \<le> 17284882258343827829416327 / 12500000000000000000000000"
    by (rule horner_le[OF u8]) simp_all
  have u6: "exp_horner 28 6 (2302585092994045683 / 1000000000000000000) \<le> 145485613968251146468912831 / 100000000000000000000000000"
    by (rule horner_le[OF u7]) simp_all
  have u5: "exp_horner 29 5 (2302585092994045683 / 1000000000000000000) \<le> 1947902095767461245156191 / 1250000000000000000000000"
    by (rule horner_le[OF u6]) simp_all
  have u4: "exp_horner 30 4 (2302585092994045683 / 1000000000000000000) \<le> 171763365253216259695819201 / 100000000000000000000000000"
    by (rule horner_le[OF u5]) simp_all
  have u3: "exp_horner 31 3 (2302585092994045683 / 1000000000000000000) \<le> 198874941088636799088776393 / 100000000000000000000000000"
    by (rule horner_le[OF u4]) simp_all
  have u2: "exp_horner 32 2 (2302585092994045683 / 1000000000000000000) \<le> 252642158240254706943484813 / 100000000000000000000000000"
    by (rule horner_le[OF u3]) simp_all
  have u1: "exp_horner 33 1 (2302585092994045683 / 1000000000000000000) \<le> 390865033712926644616712543 / 100000000000000000000000000"
    by (rule horner_le[OF u2]) simp_all
  have u0: "exp_horner 34 0 (2302585092994045683 / 1000000000000000000) \<le> 249999999999999999745502137 / 25000000000000000000000000"
    by (rule horner_le[OF u1]) simp_all
  have "(2302585092994045683 / 1000000000000000000::real) ^ 34 \<le> 3 ^ 34" by (intro power_mono) simp_all
  then have "(2302585092994045683 / 1000000000000000000::real) ^ 34 / fact 34 \<le> 3 ^ 34 / fact 34"
    by (rule divide_right_mono) simp
  moreover have "(3::real) ^ 34 / fact 34 \<le> 1 / 10 ^ 21" by (simp add: fact_numeral)
  ultimately have e: "(2302585092994045683 / 1000000000000000000::real) ^ 34 / fact 34 \<le> 1 / 10 ^ 21" by (rule order_trans)
  have "exp (2302585092994045683 / 1000000000000000000) * (1 - 1 / 10 ^ 21) \<le> exp_horner 34 0 (2302585092994045683 / 1000000000000000000)"
    by (rule exp_horner_upper[OF _ e]) simp_all
  with u0 have "exp (2302585092994045683 / 1000000000000000000::real) * (1 - 1 / 10 ^ 21) \<le> 249999999999999999745502137 / 25000000000000000000000000" by linarith
  then have "exp (2302585092994045683 / 1000000000000000000::real) \<le> 10" by (simp add: field_simps)
  then show ?thesis by (subst ln_ge_iff) simp_all
qed

lemma ln10_upper: "ln (10::real) \<le> 2302585092994045685 / 1000000000000000000"
proof -
  have l34: "exp_horner 0 34 (460517018598809137 / 200000000000000000) \<ge> 0" by simp
  have l33: "exp_horner 1 33 (460517018598809137 / 200000000000000000) \<ge> 1"
    by (rule horner_ge[OF l34]) simp_all
  have l32: "exp_horner 2 32 (460517018598809137 / 200000000000000000) \<ge> 106977530584830441469696969 / 100000000000000000000000000"
    by (rule horner_ge[OF l33]) simp_all
  have l31: "exp_horner 3 31 (460517018598809137 / 200000000000000000) \<ge> 107697652100310786517053407 / 100000000000000000000000000"
    by (rule horner_ge[OF l32]) simp_all
  have l30: "exp_horner 4 30 (460517018598809137 / 200000000000000000) \<ge> 107999451879891435224384093 / 100000000000000000000000000"
    by (rule horner_ge[OF l31]) simp_all
  have l29: "exp_horner 5 29 (460517018598809137 / 200000000000000000) \<ge> 10828926426500552608165739 / 10000000000000000000000000"
    by (rule horner_ge[OF l30]) simp_all
  have l28: "exp_horner 6 28 (460517018598809137 / 200000000000000000) \<ge> 1085981119182032599147481 / 1000000000000000000000000"
    by (rule horner_ge[OF l29]) simp_all
  have l27: "exp_horner 7 27 (460517018598809137 / 200000000000000000) \<ge> 21786117097358241673263837 / 20000000000000000000000000"
    by (rule horner_ge[OF l28]) simp_all
  have l26: "exp_horner 8 26 (460517018598809137 / 200000000000000000) \<ge> 10928970156714811028772669 / 10000000000000000000000000"
    by (rule horner_ge[OF l27]) simp_all
  have l25: "exp_horner 9 25 (460517018598809137 / 200000000000000000) \<ge> 109678801447933970460086639 / 100000000000000000000000000"
    by (rule horner_ge[OF l26]) simp_all
  have l24: "exp_horner 10 24 (460517018598809137 / 200000000000000000) \<ge> 4404071637170346422235287 / 4000000000000000000000000"
    by (rule horner_ge[OF l25]) simp_all
  have l23: "exp_horner 11 23 (460517018598809137 / 200000000000000000) \<ge> 22112656187547150238265537 / 20000000000000000000000000"
    by (rule horner_ge[OF l24]) simp_all
  have l22: "exp_horner 12 22 (460517018598809137 / 200000000000000000) \<ge> 1735449295190042848684899 / 1562500000000000000000000"
    by (rule horner_ge[OF l23]) simp_all
  have l21: "exp_horner 13 21 (460517018598809137 / 200000000000000000) \<ge> 55812392257093259423480747 / 50000000000000000000000000"
    by (rule horner_ge[OF l22]) simp_all
  have l20: "exp_horner 14 20 (460517018598809137 / 200000000000000000) \<ge> 4489572504440073287980519 / 4000000000000000000000000"
    by (rule horner_ge[OF l21]) simp_all
  have l19: "exp_horner 15 19 (460517018598809137 / 200000000000000000) \<ge> 11292202840329957091978083 / 10000000000000000000000000"
    by (rule horner_ge[OF l20]) simp_all
  have l18: "exp_horner 16 18 (460517018598809137 / 200000000000000000) \<ge> 28421218148316944877442519 / 25000000000000000000000000"
    by (rule horner_ge[OF l19]) simp_all
  have l17: "exp_horner 17 17 (460517018598809137 / 200000000000000000) \<ge> 57271363692560714603173673 / 50000000000000000000000000"
    by (rule horner_ge[OF l18]) simp_all
  have l16: "exp_horner 18 16 (460517018598809137 / 200000000000000000) \<ge> 4620575003736144586836659 / 4000000000000000000000000"
    by (rule horner_ge[OF l17]) simp_all
  have l15: "exp_horner 19 15 (460517018598809137 / 200000000000000000) \<ge> 116623854882287114799827131 / 100000000000000000000000000"
    by (rule horner_ge[OF l16]) simp_all
  have l14: "exp_horner 20 14 (460517018598809137 / 200000000000000000) \<ge> 2947560582899091941859297 / 2500000000000000000000000"
    by (rule horner_ge[OF l15]) simp_all
  have l13: "exp_horner 21 13 (460517018598809137 / 200000000000000000) \<ge> 59695727226971841606242107 / 50000000000000000000000000"
    by (rule horner_ge[OF l14]) simp_all
  have l12: "exp_horner 22 12 (460517018598809137 / 200000000000000000) \<ge> 121146844865886791207573351 / 100000000000000000000000000"
    by (rule horner_ge[OF l13]) simp_all
  have l11: "exp_horner 23 11 (460517018598809137 / 200000000000000000) \<ge> 123245909920954430265381187 / 100000000000000000000000000"
    by (rule horner_ge[OF l12]) simp_all
  have l10: "exp_horner 24 10 (460517018598809137 / 200000000000000000) \<ge> 62899281588930756113238353 / 50000000000000000000000000"
    by (rule horner_ge[OF l11]) simp_all
  have l9: "exp_horner 25 9 (460517018598809137 / 200000000000000000) \<ge> 128966189629341358139941411 / 100000000000000000000000000"
    by (rule horner_ge[OF l10]) simp_all
  have l8: "exp_horner 26 8 (460517018598809137 / 200000000000000000) \<ge> 66497534763375816741333359 / 50000000000000000000000000"
    by (rule horner_ge[OF l9]) simp_all
  have l7: "exp_horner 27 7 (460517018598809137 / 200000000000000000) \<ge> 138279058066750622679147359 / 100000000000000000000000000"
    by (rule horner_ge[OF l8]) simp_all
  have l6: "exp_horner 28 6 (460517018598809137 / 200000000000000000) \<ge> 145485613968251146522834243 / 100000000000000000000000000"
    by (rule horner_ge[OF l7]) simp_all
  have l5: "exp_horner 29 5 (460517018598809137 / 200000000000000000) \<ge> 15583216766139689968168359 / 10000000000000000000000000"
    by (rule horner_ge[OF l6]) simp_all
  have l4: "exp_horner 30 4 (460517018598809137 / 200000000000000000) \<ge> 171763365253216259790014461 / 100000000000000000000000000"
    by (rule horner_ge[OF l5]) simp_all
  have l3: "exp_horner 31 3 (460517018598809137 / 200000000000000000) \<ge> 7954997643545471969155249 / 4000000000000000000000000"
    by (rule horner_ge[OF l4]) simp_all
  have l2: "exp_horner 32 2 (460517018598809137 / 200000000000000000) \<ge> 252642158240254707183602539 / 100000000000000000000000000"
    by (rule horner_ge[OF l3]) simp_all
  have l1: "exp_horner 33 1 (460517018598809137 / 200000000000000000) \<ge> 390865033712926645145800449 / 100000000000000000000000000"
    by (rule horner_ge[OF l2]) simp_all
  have l0: "exp_horner 34 0 (460517018598809137 / 200000000000000000) \<ge> 50000000000000000049100427 / 5000000000000000000000000"
    by (rule horner_ge[OF l1]) simp_all
  have "exp_horner 34 0 (460517018598809137 / 200000000000000000) \<le> exp (460517018598809137 / 200000000000000000)" by (rule exp_horner_lower) simp
  with l0 have "(10::real) \<le> exp (460517018598809137 / 200000000000000000)" by linarith
  then have "ln (10::real) \<le> ln (exp (460517018598809137 / 200000000000000000))" by (subst ln_le_cancel_iff) simp_all
  then show ?thesis by simp
qed

lemma literal_A_close: "\<bar>literal_A - 0.5 * ln 10\<bar> \<le> 1 / 10 ^ 18"
proof -
  have a: "literal_A - 0.5 * ln 10 \<le> 1 / 10 ^ 18"
    using ln10_lower by (simp add: literal_A_def)
  have b: "- (1 / 10 ^ 18) \<le> literal_A - 0.5 * ln 10"
    using ln10_upper by (simp add: literal_A_def)
  from b have c: "- (literal_A - 0.5 * ln 10) \<le> 1 / 10 ^ 18"
    by (simp only: minus_le_iff)
  from a c show ?thesis by (simp only: abs_le_iff simp_thms)
qed


section \<open>The scheme\<close>

text \<open>
  Claim C1, as amended. For arrays that broadcast and pass the validation (every element
  of \<open>R\<close> above 0, every element of \<open>K\<close> at least 0, \<open>iters \<ge> 0\<close>) the solver computes the
  scheme of the specification element by element, in the arithmetic of its doubles:
  \<open>X1 = K*R*C1\<close> and \<open>X2 = ln(R) + C2\<close> with \<open>C1 = ln(10)/18.574\<close> and
  \<open>C2 = ln(ln(10)/5.02)\<close>, \<open>F\<close> initialised to \<open>X2 - 0.2\<close>, then \<open>iters\<close> refinements by
  \<open>E\<close> and the update of \<open>F\<close>, and \<open>f = (A/F)\<^sup>2\<close> at the end, provided no element has
  \<open>X1 + F \<le> 0\<close> at the start of a refinement. When an element has, the call raises the
  log-domain error and computes no \<open>f\<close>. With \<open>iters = 0\<close> nothing is refined and the
  result has the shape of \<open>R\<close>. The constant \<open>A\<close> is the literal of the source,
  which lies within \<open>2\<^sup>-\<^sup>5\<^sup>3\<close> of \<open>0.5*ln(10)\<close>: less than half a unit in the last place
  of a double between 1 and 2.
\<close>

theorem clamond_scheme_computed:
  assumes "broadcast_inputs R K s" and "passes_validation R K iters"
  shows "fst (f_clamond R K iters ws) =
     (if iters = 0
      then Inr (wrap_result (shape_of R) (map (\<lambda>r. scheme_f const_A (scheme_F0 r)) (data_of R)))
      else if \<exists>i<prod_list s.
                scheme_guard_fails (nat iters) (np_broadcast_to R s ! i) (np_broadcast_to K s ! i)
      then Inl (FloatingPointError msg_log_domain)
      else Inr (wrap_result s
             (map (\<lambda>i. scheme_f const_A
                        (scheme_F (nat iters) (np_broadcast_to R s ! i) (np_broadcast_to K s ! i)))
                [0..<prod_list s]))) \<and>
   const_C1 = scheme_C1 \<and> const_C2 = scheme_C2 \<and>
   is_finite const_A \<and> \<bar>fin_val const_A - 0.5 * ln 10\<bar> \<le> 1 / 2 ^ 53"
proof -
  from assms have b: "well_formed R" "well_formed K"
    "np_broadcast_shapes (shape_of K) (shape_of R) = Some s"
    and v: "\<not> np_any (\<lambda>r. fl_le r (Fin 0)) R" "\<not> np_any (\<lambda>k. fl_lt k (Fin 0)) K"
    and n: "0 \<le> iters"
    by (simp_all add: broadcast_inputs_def passes_validation_def)
  have main: "fst (f_clamond R K iters ws) =
     (if iters = 0
      then Inr (wrap_result (shape_of R) (map (\<lambda>r. scheme_f const_A (scheme_F0 r)) (data_of R)))
      else if \<exists>i<prod_list s.
                scheme_guard_fails (nat iters) (np_broadcast_to R s ! i) (np_broadcast_to K s ! i)
      then Inl (FloatingPointError msg_log_domain)
      else Inr (wrap_result s
             (map (\<lambda>i. scheme_f const_A
                        (scheme_F (nat iters) (np_broadcast_to R s ! i) (np_broadcast_to K s ! i)))
                [0..<prod_list s])))"
  proof (cases "iters = 0")
    case True
    show ?thesis
      unfolding True scheme_f_def scheme_F0_eq
      by (simp only: f_clamond_zero_iters[OF b v] simp_thms if_True)
  next
    case False
    then have pos: "0 < iters" using n by simp
    show ?thesis
      unfolding scheme_guard_fails_eq scheme_F_eq scheme_f_def
        f_clamond_elementwise[OF b v pos] elem_f_def
      by (simp only: False if_False)
  qed
  have "\<bar>literal_A - 0.5 * ln 10\<bar> \<le> 1 / 2 ^ 53"
    using literal_A_close by (rule order_trans) simp
  then have A: "is_finite const_A \<and> \<bar>fin_val const_A - 0.5 * ln 10\<bar> \<le> 1 / 2 ^ 53"
    unfolding const_A_eq by simp
  from main scheme_C1_eq scheme_C2_eq A show ?thesis by simp
qed

theorem clamond_scheme_witness:
  "broadcast_inputs (PyFloat (Fin 700000)) (PyFloat (Fin 0.01)) [] \<and>
   passes_validation (PyFloat (Fin 700000)) (PyFloat (Fin 0.01)) 2 \<and>
   \<not> scheme_guard_fails 2 (Fin 700000) (Fin 0.01) \<and>
   fst (f_clamond (PyFloat (Fin 700000)) (PyFloat (Fin 0.01)) 2 []) =
     Inr (NpFloat64 (scheme_f const_A (scheme_F 2 (Fin 700000) (Fin 0.01))))"
proof -
  have b: "broadcast_inputs (PyFloat (Fin 700000)) (PyFloat (Fin 0.01)) []"
    by (rule scalar_inputs)
  have v: "passes_validation (PyFloat (Fin 700000)) (PyFloat (Fin 0.01)) 2"
    by (simp add: passes_validation_def np_any_def)
  have pass: "\<not> scheme_guard_fails 2 (Fin 700000) (Fin 0.01)"
    using turbulent_checks_pass[of 700000 "0.01"]
    by (simp add: scheme_guard_fails_eq elem_domain_error_Fin)
  have r: "fst (f_clamond (PyFloat (Fin 700000)) (PyFloat (Fin 0.01)) 2 []) =
     Inr (NpFloat64 (scheme_f const_A (scheme_F 2 (Fin 700000) (Fin 0.01))))"
    using clamond_scheme_computed[OF b v, of "[]"] pass
    by (simp add: scalar_inputs)
  from b v pass r show ?thesis by (intro conjI)
qed

text \<open>
  As the claim states it, without the condition on \<open>X1 + F\<close>, it fails at \<open>R = 1\<close>,
  \<open>K = 0\<close>, \<open>iters = 1\<close>: the first check finds \<open>X1 + F = C2 - 0.2 < 0\<close>.
\<close>

theorem clamond_scheme_counterexample:
  "(0::real) < 1 \<and> (0::real) \<le> 0 \<and> (0::int) \<le> 1 \<and>
   fst (f_clamond (PyFloat (Fin 1)) (PyFloat (Fin 0)) 1 []) =
     Inl (FloatingPointError msg_log_domain)"
  using f_clamond_scalar[of 1 0 1 "[]"] low_R_fails[of 1 0]
  by simp


section \<open>The log-domain check\<close>

lemma elem_domain_error_alt:
  "elem_domain_error n r k \<longleftrightarrow>
   (\<exists>j<n. fl_le (fl_add (elem_X1 k r) (elem_F j r k)) (Fin 0))"
  by (simp add: elem_domain_error_def list_ex_iff log_domain_violated_def Bex_def)

text \<open>
  Claim C4, as amended. For arrays that broadcast and pass the validation, the solver
  compares \<open>X1 + F\<close> with 0 at the start of every refinement step and nowhere else: it
  raises the log-domain error, and returns no value, exactly when at the start of one of
  the \<open>iters\<close> steps some element has \<open>X1 + F \<le> 0\<close>; otherwise it returns a value. The
  comparison is \<open>\<le> 0\<close>, which is false for NaN: an element whose \<open>X1 + F\<close> is NaN does not
  satisfy \<open>X1 + F > 0\<close> and still passes. With \<open>iters = 0\<close> nothing is checked.
\<close>

theorem log_domain_error_exactly_when:
  assumes "broadcast_inputs R K s" and "passes_validation R K iters"
  shows "(fst (f_clamond R K iters ws) = Inl (FloatingPointError msg_log_domain) \<longleftrightarrow>
      (\<exists>i<prod_list s. \<exists>j<nat iters.
         fl_le (fl_add (elem_X1 (np_broadcast_to K s ! i) (np_broadcast_to R s ! i))
                       (elem_F j (np_broadcast_to R s ! i) (np_broadcast_to K s ! i)))
               (Fin 0))) \<and>
    (fst (f_clamond R K iters ws) \<noteq> Inl (FloatingPointError msg_log_domain) \<longrightarrow>
      (\<exists>f. fst (f_clamond R K iters ws) = Inr f))"
proof -
  from assms have b: "well_formed R" "well_formed K"
    "np_broadcast_shapes (shape_of K) (shape_of R) = Some s"
    and v: "\<not> np_any (\<lambda>r. fl_le r (Fin 0)) R" "\<not> np_any (\<lambda>k. fl_lt k (Fin 0)) K"
    and nonneg: "0 \<le> iters"
    by (simp_all add: broadcast_inputs_def passes_validation_def)
  let ?bad = "\<exists>i<prod_list s. \<exists>j<nat iters.
         fl_le (fl_add (elem_X1 (np_broadcast_to K s ! i) (np_broadcast_to R s ! i))
                       (elem_F j (np_broadcast_to R s ! i) (np_broadcast_to K s ! i)))
               (Fin 0)"
  have bad: "?bad \<longleftrightarrow>
     (\<exists>i<prod_list s. elem_domain_error (nat iters) (np_broadcast_to R s ! i) (np_broadcast_to K s ! i))"
    by (simp add: elem_domain_error_alt)
  show ?thesis
  proof (cases "iters = 0")
    case True
    have "\<exists>f. fst (f_clamond R K iters ws) = Inr f"
      unfolding True using f_clamond_zero_iters[OF b v, of ws] by blast
    then show ?thesis using True by auto
  next
    case False
    then have pos: "0 < iters" using nonneg by simp
    note gc = f_clamond_elementwise[OF b v pos, of ws]
    show ?thesis
    proof (cases ?bad)
      case True
      then have "fst (f_clamond R K iters ws) = Inl (FloatingPointError msg_log_domain)"
        unfolding gc bad by (simp only: if_True)
      then show ?thesis using True by simp
    next
      case nobad: False
      then have "fst (f_clamond R K iters ws) = Inr (wrap_result s
          (map (\<lambda>i. elem_f (nat iters) (np_broadcast_to R s ! i) (np_broadcast_to K s ! i))
               [0..<prod_list s]))"
        unfolding gc bad by (simp only: if_False)
      then show ?thesis using nobad by simp
    qed
  qed
qed

theorem log_domain_error_witness:
  "broadcast_inputs (PyFloat (Fin 1)) (PyFloat (Fin 0)) [] \<and>
   passes_validation (PyFloat (Fin 1)) (PyFloat (Fin 0)) 1 \<and>
   fl_le (fl_add (elem_X1 (Fin 0) (Fin 1)) (elem_F 0 (Fin 1) (Fin 0))) (Fin 0) \<and>
   fst (f_clamond (PyFloat (Fin 1)) (PyFloat (Fin 0)) 1 []) = Inl (FloatingPointError msg_log_domain) \<and>
   broadcast_inputs (PyFloat (Fin 700000)) (PyFloat (Fin 0.01)) [] \<and>
   passes_validation (PyFloat (Fin 700000)) (PyFloat (Fin 0.01)) 2 \<and>
   (\<exists>f. fst (f_clamond (PyFloat (Fin 700000)) (PyFloat (Fin 0.01)) 2 []) = Inr f)"
proof -
  have b1: "broadcast_inputs (PyFloat (Fin 1)) (PyFloat (Fin 0)) []"
    and b2: "broadcast_inputs (PyFloat (Fin 700000)) (PyFloat (Fin 0.01)) []"
    by (rule scalar_inputs)+
  have v1: "passes_validation (PyFloat (Fin 1)) (PyFloat (Fin 0)) 1"
    and v2: "passes_validation (PyFloat (Fin 700000)) (PyFloat (Fin 0.01)) 2"
    by (simp_all add: passes_validation_def np_any_def)
  have viol: "fl_le (fl_add (elem_X1 (Fin 0) (Fin 1)) (elem_F 0 (Fin 1) (Fin 0))) (Fin 0)"
    using low_R_fails[of 1 0] elem_F_Fin[of 1 0 0]
    by (simp add: elem_X1_Fin spec_checks_pass_def)
  have pass: "\<not> elem_domain_error 2 (Fin 700000) (Fin 0.01)"
    using turbulent_checks_pass[of 700000 "0.01"] by (simp add: elem_domain_error_Fin)
  then have nobad: "\<not> (\<exists>i<Suc 0. \<exists>j<2.
      fl_le (fl_add (elem_X1 (Fin 0.01) (Fin 700000)) (elem_F j (Fin 700000) (Fin 0.01))) (Fin 0))"
    by (simp add: elem_domain_error_alt)
  from log_domain_error_exactly_when[OF b1 v1, of "[]"] viol
  have r1: "fst (f_clamond (PyFloat (Fin 1)) (PyFloat (Fin 0)) 1 []) =
      Inl (FloatingPointError msg_log_domain)"
    by (simp add: scalar_inputs)
  from log_domain_error_exactly_when[OF b2 v2, of "[]"] nobad
  have r2: "\<exists>f. fst (f_clamond (PyFloat (Fin 700000)) (PyFloat (Fin 0.01)) 2 []) = Inr f"
    by (simp add: scalar_inputs)
  from b1 v1 viol r1 b2 v2 r2 show ?thesis by (intro conjI)
qed

text \<open>
  As the claim states it, with the condition \<open>X1 + F > 0\<close>, it fails for \<open>R = NaN\<close>, which
  passes the validation: \<open>X1 + F\<close> is NaN, not greater than 0, and no error is raised.
\<close>

lemma fl_NaN_right [simp]:
  "fl_add x NaN = NaN" "fl_mul x NaN = NaN" "fl_div x NaN = NaN" "fl_sub x NaN = NaN"
  "fl_le x NaN = False" "fl_lt x NaN = False"
  by (cases x; simp add: fl_sub_def)+

lemma fl_NaN_left [simp]: "fl_sub NaN x = NaN" "fl_square NaN = NaN"
  by (simp_all add: fl_sub_def fl_square_def)

theorem log_domain_error_counterexample:
  "\<not> fl_lt (Fin 0) (fl_add (elem_X1 (Fin 0) NaN) (elem_F 0 NaN (Fin 0))) \<and>
   fst (f_clamond (PyFloat NaN) (PyFloat (Fin 0)) 1 []) = Inr (NpFloat64 NaN)"
proof -
  have b: "well_formed (PyFloat NaN)" "well_formed (PyFloat (Fin 0))"
    "np_broadcast_shapes (shape_of (PyFloat (Fin 0))) (shape_of (PyFloat NaN)) = Some []"
    using scalar_inputs(1)[of NaN "Fin 0"] by (simp_all add: broadcast_inputs_def)
  have v: "\<not> np_any (\<lambda>r. fl_le r (Fin 0)) (PyFloat NaN)"
    "\<not> np_any (\<lambda>k. fl_lt k (Fin 0)) (PyFloat (Fin 0))"
    by (simp_all add: np_any_def)
  have F0: "elem_F 0 NaN (Fin 0) = NaN"
    by (simp add: elem_F_def elem_F0_def elem_X2_def)
  have F1: "elem_F 1 NaN (Fin 0) = NaN"
    by (simp add: elem_F_def elem_F0_def elem_X2_def elem_step_def elem_E_def elem_update_def)
  have ok: "\<not> elem_domain_error 1 NaN (Fin 0)"
    using F0 by (simp add: elem_domain_error_def log_domain_violated_def)
  show ?thesis
    using f_clamond_elementwise[OF b v, of 1 "[]"] ok F0 F1
    by (simp add: scalar_inputs elem_f_def)
qed


section \<open>The turbulence warning\<close>

text \<open>
  Claim C5, as amended. The solver issues the turbulence warning exactly when the arguments
  pass the validation and some element of \<open>R\<close> is strictly below 2300: none for
  \<open>R = 2300\<close>, one for \<open>R = 2299\<close>, and none when an argument error is raised. The warning
  does not end the call: for arrays that broadcast and pass the validation, a value is
  returned whenever no element fails a log-domain check, whether or not the warning was
  issued.
\<close>

theorem turbulence_warning:
  "snd (f_clamond R K iters ws) =
     (if passes_validation R K iters \<and> (\<exists>r \<in> set (data_of R). fl_lt r (Fin 2300))
      then ws @ [msg_turbulent] else ws) \<and>
   (broadcast_inputs R K s \<and> passes_validation R K iters \<and>
    (\<forall>i<prod_list s.
       \<not> elem_domain_error (nat iters) (np_broadcast_to R s ! i) (np_broadcast_to K s ! i)) \<longrightarrow>
      (\<exists>f. fst (f_clamond R K iters ws) = Inr f))"
proof -
  have w: "snd (f_clamond R K iters ws) =
     (if passes_validation R K iters \<and> (\<exists>r \<in> set (data_of R). fl_lt r (Fin 2300))
      then ws @ [msg_turbulent] else ws)"
    using f_clamond_warning[of R K iters ws] by (simp add: np_any_def list_ex_iff)
  have r: "\<exists>f. fst (f_clamond R K iters ws) = Inr f"
    if b: "broadcast_inputs R K s" and p: "passes_validation R K iters"
      and c: "\<forall>i<prod_list s.
        \<not> elem_domain_error (nat iters) (np_broadcast_to R s ! i) (np_broadcast_to K s ! i)"
  proof -
    from b p have wf: "well_formed R" "well_formed K"
      "np_broadcast_shapes (shape_of K) (shape_of R) = Some s"
      and v: "\<not> np_any (\<lambda>r. fl_le r (Fin 0)) R" "\<not> np_any (\<lambda>k. fl_lt k (Fin 0)) K"
      and n: "0 \<le> iters"
      by (simp_all add: broadcast_inputs_def passes_validation_def)
    show ?thesis
    proof (cases "iters = 0")
      case True
      show ?thesis unfolding True using f_clamond_zero_iters[OF wf v, of ws] by blast
    next
      case False
      then have pos: "0 < iters" using n by simp
      from c have no: "\<not> (\<exists>i<prod_list s.
          elem_domain_error (nat iters) (np_broadcast_to R s ! i) (np_broadcast_to K s ! i))"
        by blast
      show ?thesis unfolding f_clamond_elementwise[OF wf v pos] if_not_P[OF no] by blast
    qed
  qed
  from w r show ?thesis by blast
qed

theorem turbulence_warning_witness:
  "broadcast_inputs (PyFloat (Fin 2299)) (PyFloat (Fin 0)) [] \<and>
   passes_validation (PyFloat (Fin 2299)) (PyFloat (Fin 0)) 2 \<and>
   \<not> elem_domain_error 2 (Fin 2299) (Fin 0) \<and>
   snd (f_clamond (PyFloat (Fin 2299)) (PyFloat (Fin 0)) 2 []) = [msg_turbulent] \<and>
   (\<exists>f. fst (f_clamond (PyFloat (Fin 2299)) (PyFloat (Fin 0)) 2 []) = Inr f) \<and>
   broadcast_inputs (PyFloat (Fin 2300)) (PyFloat (Fin 0)) [] \<and>
   passes_validation (PyFloat (Fin 2300)) (PyFloat (Fin 0)) 2 \<and>
   \<not> elem_domain_error 2 (Fin 2300) (Fin 0) \<and>
   snd (f_clamond (PyFloat (Fin 2300)) (PyFloat (Fin 0)) 2 []) = [] \<and>
   (\<exists>f. fst (f_clamond (PyFloat (Fin 2300)) (PyFloat (Fin 0)) 2 []) = Inr f) \<and>
   broadcast_inputs (NdArray [2] [NaN, Fin 2299]) (PyFloat (Fin 0)) [2] \<and>
   passes_validation (NdArray [2] [NaN, Fin 2299]) (PyFloat (Fin 0)) 2 \<and>
   snd (f_clamond (NdArray [2] [NaN, Fin 2299]) (PyFloat (Fin 0)) 2 []) = [msg_turbulent] \<and>
   (\<exists>f. fst (f_clamond (NdArray [2] [NaN, Fin 2299]) (PyFloat (Fin 0)) 2 []) = Inr f)"
proof -
  have b1: "broadcast_inputs (PyFloat (Fin 2299)) (PyFloat (Fin 0)) []"
    and b2: "broadcast_inputs (PyFloat (Fin 2300)) (PyFloat (Fin 0)) []"
    by (rule scalar_inputs)+
  have v1: "passes_validation (PyFloat (Fin 2299)) (PyFloat (Fin 0)) 2"
    and v2: "passes_validation (PyFloat (Fin 2300)) (PyFloat (Fin 0)) 2"
    and v3: "passes_validation (NdArray [2] [NaN, Fin 2299]) (PyFloat (Fin 0)) 2"
    by (simp_all add: passes_validation_def np_any_def)
  have c1: "\<not> elem_domain_error 2 (Fin 2299) (Fin 0)"
    using turbulent_checks_pass[of 2299 0] by (simp add: elem_domain_error_Fin)
  have c2: "\<not> elem_domain_error 2 (Fin 2300) (Fin 0)"
    using turbulent_checks_pass[of 2300 0] by (simp add: elem_domain_error_Fin)
  have wf: "well_formed (NdArray [2] [NaN, Fin 2299])" by (simp add: well_formed_def)
  have b3: "broadcast_inputs (NdArray [2] [NaN, Fin 2299]) (PyFloat (Fin 0)) [2]"
    using array_inputs(1)[OF wf, where k = "Fin 0"] wf
    by (simp add: broadcast_inputs_def well_formed_def)
  have R3: "np_broadcast_to (NdArray [2] [NaN, Fin 2299]) [2] = [NaN, Fin 2299]"
    by (rule array_inputs(2)[OF wf])
  have K3: "\<And>x. np_broadcast_to (PyFloat x) [2] = [x, x]"
    by (simp add: np_broadcast_to_def pad_shape_def numeral_2_eq_2)
  have n3: "\<not> elem_domain_error 2 NaN (Fin 0)"
    by (simp add: elem_domain_error_def log_domain_violated_def elem_X1_def list_ex_iff)
  have c3: "\<forall>i<prod_list [2].
      \<not> elem_domain_error (nat 2) (np_broadcast_to (NdArray [2] [NaN, Fin 2299]) [2] ! i)
         (np_broadcast_to (PyFloat (Fin 0)) [2] ! i)"
    unfolding R3 K3 using c1 n3
    by (simp add: less_Suc_eq numeral_2_eq_2)
  have w1: "snd (f_clamond (PyFloat (Fin 2299)) (PyFloat (Fin 0)) 2 []) = [msg_turbulent]"
    and r1: "\<exists>f. fst (f_clamond (PyFloat (Fin 2299)) (PyFloat (Fin 0)) 2 []) = Inr f"
    using turbulence_warning[of "PyFloat (Fin 2299)" "PyFloat (Fin 0)" 2 "[]" "[]"] b1 v1 c1
    by (simp_all add: scalar_inputs)
  have w2: "snd (f_clamond (PyFloat (Fin 2300)) (PyFloat (Fin 0)) 2 []) = []"
    and r2: "\<exists>f. fst (f_clamond (PyFloat (Fin 2300)) (PyFloat (Fin 0)) 2 []) = Inr f"
    using turbulence_warning[of "PyFloat (Fin 2300)" "PyFloat (Fin 0)" 2 "[]" "[]"] b2 v2 c2
    by (simp_all add: scalar_inputs)
  have w3: "snd (f_clamond (NdArray [2] [NaN, Fin 2299]) (PyFloat (Fin 0)) 2 []) = [msg_turbulent]"
    and r3: "\<exists>f. fst (f_clamond (NdArray [2] [NaN, Fin 2299]) (PyFloat (Fin 0)) 2 []) = Inr f"
    using turbulence_warning[of "NdArray [2] [NaN, Fin 2299]" "PyFloat (Fin 0)" 2 "[]" "[2]"]
      b3 v3 c3
    by simp_all
  from b1 v1 c1 w1 r1 b2 v2 c2 w2 r2 b3 v3 w3 r3 show ?thesis by (intro conjI)
qed

text \<open>
  As the claim states it, it fails in both parts: \<open>R = -1\<close> is below 2300 and no warning is
  issued, since the argument error comes first; and for \<open>R = 0.5\<close>, \<open>K = 0\<close>, \<open>iters = 2\<close>
  the warning is issued and the call then raises the log-domain error instead of returning
  a result.
\<close>

theorem turbulence_warning_counterexample:
  "fl_lt (Fin (- 1)) (Fin 2300) \<and>
   snd (f_clamond (PyFloat (Fin (- 1))) (PyFloat (Fin 0)) 2 []) = [] \<and>
   f_clamond (PyFloat (Fin 0.5)) (PyFloat (Fin 0)) 2 [] =
     (Inl (FloatingPointError msg_log_domain), [msg_turbulent])"
proof -
  have a: "snd (f_clamond (PyFloat (Fin (- 1))) (PyFloat (Fin 0)) 2 []) = []"
    by (simp add: f_clamond_warning passes_validation_def np_any_def)
  have b: "snd (f_clamond (PyFloat (Fin 0.5)) (PyFloat (Fin 0)) 2 []) = [msg_turbulent]"
    by (simp add: f_clamond_warning passes_validation_def np_any_def)
  have c: "fst (f_clamond (PyFloat (Fin 0.5)) (PyFloat (Fin 0)) 2 []) =
      Inl (FloatingPointError msg_log_domain)"
    using f_clamond_scalar[of "0.5" 0 2 "[]"] low_R_fails[of "0.5" 1]
    by (simp add: numeral_2_eq_2)
  from a b c show ?thesis by (simp add: prod_eq_iff)
qed


section \<open>The refinement loop\<close>

text \<open>
  Claim C6, as amended. The loop is a recursion on the number of steps left, so every call
  ends, and for arrays that broadcast and pass the validation it ends in one of three ways.
  With \<open>iters = 0\<close> the body never runs, nothing is checked, and the result is the initial
  guess mapped back, \<open>(A/(ln(R) + C2 - 0.2))\<^sup>2\<close> for every element of \<open>R\<close>. With
  \<open>iters > 0\<close> and no failing log-domain check, the body runs exactly \<open>iters\<close> times on every
  element: there is no convergence test and no retry. With \<open>iters > 0\<close> and a failing check
  the loop is left at that check with the log-domain error.
\<close>

theorem loop_runs_iters_times:
  assumes "broadcast_inputs R K s" and "passes_validation R K iters"
  shows "(iters = 0 \<longrightarrow>
      fst (f_clamond R K iters ws) =
        Inr (wrap_result (shape_of R)
              (map (\<lambda>r. fl_square
                         (fl_div const_A (fl_sub (fl_add (fl_log r) const_C2) (Fin 0.2))))
                 (data_of R)))) \<and>
    (0 < iters \<and>
     (\<forall>i<prod_list s.
        \<not> elem_domain_error (nat iters) (np_broadcast_to R s ! i) (np_broadcast_to K s ! i)) \<longrightarrow>
      fst (f_clamond R K iters ws) =
        Inr (wrap_result s
              (map (\<lambda>i. fl_square
                         (fl_div const_A
                            ((elem_step (elem_X1 (np_broadcast_to K s ! i) (np_broadcast_to R s ! i))
                                        (elem_X2 (np_broadcast_to R s ! i)) ^^ nat iters)
                               (elem_F0 (np_broadcast_to R s ! i)))))
                 [0..<prod_list s]))) \<and>
    (0 < iters \<and>
     (\<exists>i<prod_list s.
        elem_domain_error (nat iters) (np_broadcast_to R s ! i) (np_broadcast_to K s ! i)) \<longrightarrow>
      fst (f_clamond R K iters ws) = Inl (FloatingPointError msg_log_domain))"
proof -
  from assms have b: "well_formed R" "well_formed K"
    "np_broadcast_shapes (shape_of K) (shape_of R) = Some s"
    and v: "\<not> np_any (\<lambda>r. fl_le r (Fin 0)) R" "\<not> np_any (\<lambda>k. fl_lt k (Fin 0)) K"
    by (simp_all add: broadcast_inputs_def passes_validation_def)
  have zero: "fst (f_clamond R K iters ws) =
        Inr (wrap_result (shape_of R)
              (map (\<lambda>r. fl_square
                         (fl_div const_A (fl_sub (fl_add (fl_log r) const_C2) (Fin 0.2))))
                 (data_of R)))" if "iters = 0"
    unfolding that f_clamond_zero_iters[OF b v] elem_F0_def elem_X2_def by (rule refl)
  have run: "fst (f_clamond R K iters ws) =
        Inr (wrap_result s
              (map (\<lambda>i. fl_square
                         (fl_div const_A
                            ((elem_step (elem_X1 (np_broadcast_to K s ! i) (np_broadcast_to R s ! i))
                                        (elem_X2 (np_broadcast_to R s ! i)) ^^ nat iters)
                               (elem_F0 (np_broadcast_to R s ! i)))))
                 [0..<prod_list s]))"
    if "0 < iters"
      and "\<forall>i<prod_list s.
        \<not> elem_domain_error (nat iters) (np_broadcast_to R s ! i) (np_broadcast_to K s ! i)"
  proof -
    from that(2) have no: "\<not> (\<exists>i<prod_list s.
        elem_domain_error (nat iters) (np_broadcast_to R s ! i) (np_broadcast_to K s ! i))"
      by blast
    show ?thesis
      unfolding f_clamond_elementwise[OF b v that(1)] if_not_P[OF no] elem_f_def elem_F_def
      by (rule refl)
  qed
  have stop: "fst (f_clamond R K iters ws) = Inl (FloatingPointError msg_log_domain)"
    if "0 < iters"
      and bad: "\<exists>i<prod_list s.
        elem_domain_error (nat iters) (np_broadcast_to R s ! i) (np_broadcast_to K s ! i)"
    unfolding f_clamond_elementwise[OF b v that(1)] if_P[OF bad] by (rule refl)
  from zero run stop show ?thesis by blast
qed

theorem loop_runs_witness:
  "broadcast_inputs (PyFloat (Fin 700000)) (PyFloat (Fin 0.01)) [] \<and>
   passes_validation (PyFloat (Fin 700000)) (PyFloat (Fin 0.01)) 0 \<and>
   fst (f_clamond (PyFloat (Fin 700000)) (PyFloat (Fin 0.01)) 0 []) =
     Inr (NpFloat64
       (fl_square (fl_div const_A (fl_sub (fl_add (fl_log (Fin 700000)) const_C2) (Fin 0.2))))) \<and>
   passes_validation (PyFloat (Fin 700000)) (PyFloat (Fin 0.01)) 2 \<and>
   \<not> elem_domain_error 2 (Fin 700000) (Fin 0.01) \<and>
   fst (f_clamond (PyFloat (Fin 700000)) (PyFloat (Fin 0.01)) 2 []) =
     Inr (NpFloat64
       (fl_square (fl_div const_A
          ((elem_step (elem_X1 (Fin 0.01) (Fin 700000)) (elem_X2 (Fin 700000)) ^^ 2)
             (elem_F0 (Fin 700000))))))"
proof -
  have b: "broadcast_inputs (PyFloat (Fin 700000)) (PyFloat (Fin 0.01)) []"
    by (rule scalar_inputs)
  have v0: "passes_validation (PyFloat (Fin 700000)) (PyFloat (Fin 0.01)) 0"
    and v2: "passes_validation (PyFloat (Fin 700000)) (PyFloat (Fin 0.01)) 2"
    by (simp_all add: passes_validation_def np_any_def)
  have pass: "\<not> elem_domain_error 2 (Fin 700000) (Fin 0.01)"
    using turbulent_checks_pass[of 700000 "0.01"] by (simp add: elem_domain_error_Fin)
  have r0: "fst (f_clamond (PyFloat (Fin 700000)) (PyFloat (Fin 0.01)) 0 []) =
     Inr (NpFloat64
       (fl_square (fl_div const_A (fl_sub (fl_add (fl_log (Fin 700000)) const_C2) (Fin 0.2)))))"
    using loop_runs_iters_times[OF b v0, of "[]"]
    by (simp add: scalar_inputs del: fl_log.simps)
  have r2: "fst (f_clamond (PyFloat (Fin 700000)) (PyFloat (Fin 0.01)) 2 []) =
     Inr (NpFloat64
       (fl_square (fl_div const_A
          ((elem_step (elem_X1 (Fin 0.01) (Fin 700000)) (elem_X2 (Fin 700000)) ^^ 2)
             (elem_F0 (Fin 700000))))))"
    using loop_runs_iters_times[OF b v2, of "[]"] pass
    by (simp add: scalar_inputs del: funpow.simps)
  from b v0 r0 v2 pass r2 show ?thesis by (intro conjI)
qed

text \<open>
  As the claim states it, for every valid input, it fails at \<open>R = 0.25\<close>, \<open>K = 0\<close>,
  \<open>iters = 5\<close>: the input passes the validation and the loop is left at its first check,
  as it is with \<open>iters = 1\<close>.
\<close>

theorem loop_runs_counterexample:
  "passes_validation (PyFloat (Fin 0.25)) (PyFloat (Fin 0)) 5 \<and>
   fst (f_clamond (PyFloat (Fin 0.25)) (PyFloat (Fin 0)) 5 []) =
     Inl (FloatingPointError msg_log_domain) \<and>
   fst (f_clamond (PyFloat (Fin 0.25)) (PyFloat (Fin 0)) 1 []) =
     Inl (FloatingPointError msg_log_domain)"
proof -
  have "\<not> spec_checks_pass (Suc 4) 0.25 0" "\<not> spec_checks_pass (Suc 0) 0.25 0"
    by (rule low_R_fails; simp)+
  then show ?thesis
    using f_clamond_scalar[of "0.25" 0 5 "[]"] f_clamond_scalar[of "0.25" 0 1 "[]"]
    by (simp add: passes_validation_def np_any_def eval_nat_numeral)
qed


section \<open>Array calls and scalar calls\<close>






section \<open>Sign and finiteness of the result\<close>








section \<open>NaN elements\<close>

lemma elem_step_NaN_F [simp]: "elem_step x1 x2 NaN = NaN"
  by (simp add: elem_step_def elem_update_def)

lemma elem_step_NaN_X1 [simp]: "elem_step NaN x2 f = NaN"
  by (simp add: elem_step_def elem_update_def elem_E_def)

lemma funpow_fixed: "g c = c \<Longrightarrow> (g ^^ n) c = c"
  by (induction n) simp_all

lemma elem_F_NaN_R: "elem_F n NaN k = NaN"
  by (simp add: elem_F_def elem_F0_def elem_X2_def funpow_fixed)

lemma elem_F_NaN_K: "0 < n \<Longrightarrow> elem_F n r NaN = NaN"
proof (induction n)
  case 0
  then show ?case by simp
next
  case (Suc n)
  show ?case by (simp add: elem_F_Suc elem_X1_def)
qed

lemma elem_f_NaN: "elem_f n NaN k = NaN" "0 < n \<Longrightarrow> elem_f n r NaN = NaN"
  by (simp_all add: elem_f_def elem_F_NaN_R elem_F_NaN_K)

lemma elem_domain_error_NaN: "\<not> elem_domain_error n NaN k" "\<not> elem_domain_error n r NaN"
  by (simp_all add: elem_domain_error_alt elem_F_NaN_R elem_X1_def)

lemma NaN_passes_validation:
  assumes "\<forall>r\<in>set (data_of R). r = NaN \<or> fl_lt (Fin 0) r"
    and "\<forall>k\<in>set (data_of K). k = NaN \<or> fl_le (Fin 0) k" and "0 \<le> iters"
  shows "passes_validation R K iters"
proof -
  have "\<not> fl_le r (Fin 0)" if "r = NaN \<or> fl_lt (Fin 0) r" for r
    using that by (cases r) auto
  moreover have "\<not> fl_lt k (Fin 0)" if "k = NaN \<or> fl_le (Fin 0) k" for k
    using that by (cases k) auto
  ultimately show ?thesis
    using assms by (auto simp: passes_validation_def np_any_def list_ex_iff)
qed

text \<open>
  Claim C10, as amended. Let every element of \<open>R\<close> be NaN or greater than 0, every element
  of \<open>K\<close> be NaN or at least 0, and \<open>iters \<ge> 0\<close>. Then no argument error is raised: both
  comparisons of the validation are false for NaN. An element where \<open>R\<close> or \<open>K\<close> is NaN
  fails no log-domain check, so the call returns unless another element fails one. In the
  returned \<open>f\<close>, an element is NaN where \<open>R\<close> is NaN, and, for \<open>iters \<ge> 1\<close>, where \<open>K\<close> is
  NaN. With \<open>iters = 0\<close> the result does not depend on \<open>K\<close>.
\<close>

theorem NaN_elements_pass_through:
  assumes b: "broadcast_inputs R K s"
    and okR: "\<forall>r\<in>set (data_of R). r = NaN \<or> fl_lt (Fin 0) r"
    and okK: "\<forall>k\<in>set (data_of K). k = NaN \<or> fl_le (Fin 0) k"
    and nonneg: "0 \<le> iters"
  shows "\<not> (\<exists>e. fst (f_clamond R K iters ws) = Inl e \<and> is_invalid_argument e) \<and>
    (\<forall>i<prod_list s. np_broadcast_to R s ! i = NaN \<or> np_broadcast_to K s ! i = NaN \<longrightarrow>
       \<not> elem_domain_error (nat iters) (np_broadcast_to R s ! i) (np_broadcast_to K s ! i)) \<and>
    ((\<forall>i<prod_list s.
        \<not> elem_domain_error (nat iters) (np_broadcast_to R s ! i) (np_broadcast_to K s ! i)) \<longrightarrow>
       (\<exists>f. fst (f_clamond R K iters ws) = Inr f)) \<and>
    (\<forall>f. fst (f_clamond R K iters ws) = Inr f \<longrightarrow>
       (iters = 0 \<longrightarrow>
          (\<forall>j<length (data_of R). data_of R ! j = NaN \<longrightarrow> data_of f ! j = NaN)) \<and>
       (0 < iters \<longrightarrow>
          (\<forall>i<prod_list s.
             np_broadcast_to R s ! i = NaN \<or> np_broadcast_to K s ! i = NaN \<longrightarrow>
             data_of f ! i = NaN)))"
proof -
  let ?n = "nat iters"
  let ?r = "\<lambda>i. np_broadcast_to R s ! i" and ?k = "\<lambda>i. np_broadcast_to K s ! i"
  have pv: "passes_validation R K iters" by (rule NaN_passes_validation[OF okR okK nonneg])
  then have v: "\<not> np_any (\<lambda>r. fl_le r (Fin 0)) R" "\<not> np_any (\<lambda>k. fl_lt k (Fin 0)) K"
    by (simp_all add: passes_validation_def)
  from b have wf: "well_formed R" "well_formed K"
    "np_broadcast_shapes (shape_of K) (shape_of R) = Some s"
    by (simp_all add: broadcast_inputs_def)
  have A: "\<not> (\<exists>e. fst (f_clamond R K iters ws) = Inl e \<and> is_invalid_argument e)"
    using raised_f_clamond_valid[OF v nonneg, of ws] not_invalid_if_raised_while_computing
    by auto
  have B: "\<forall>i<prod_list s. ?r i = NaN \<or> ?k i = NaN \<longrightarrow> \<not> elem_domain_error ?n (?r i) (?k i)"
    using elem_domain_error_NaN by metis
  have C: "\<exists>f. fst (f_clamond R K iters ws) = Inr f"
    if no: "\<forall>i<prod_list s. \<not> elem_domain_error ?n (?r i) (?k i)"
  proof (cases "iters = 0")
    case True
    show ?thesis unfolding True using f_clamond_zero_iters[OF wf v, of ws] by blast
  next
    case False
    then have pos: "0 < iters" using nonneg by simp
    from no have no': "\<not> (\<exists>i<prod_list s. elem_domain_error ?n (?r i) (?k i))" by blast
    show ?thesis unfolding f_clamond_elementwise[OF wf v pos] if_not_P[OF no'] by blast
  qed
  have D0: "data_of f ! j = NaN"
    if res: "fst (f_clamond R K iters ws) = Inr f" and z: "iters = 0"
      and j: "j < length (data_of R)" and nan: "data_of R ! j = NaN" for f j
  proof -
    have "f = wrap_result (shape_of R)
        (map (\<lambda>r. fl_square (fl_div const_A (elem_F0 r))) (data_of R))"
      using res f_clamond_zero_iters[OF wf v, of ws] unfolding z by simp
    then show ?thesis using j nan by (simp add: elem_F0_def elem_X2_def)
  qed
  have D1: "data_of f ! i = NaN"
    if res: "fst (f_clamond R K iters ws) = Inr f" and pos: "0 < iters"
      and i: "i < prod_list s" and nan: "?r i = NaN \<or> ?k i = NaN" for f i
  proof -
    note g = f_clamond_elementwise[OF wf v pos, of ws]
    have no: "\<not> (\<exists>i<prod_list s. elem_domain_error ?n (?r i) (?k i))"
      using g res by (auto split: if_splits)
    have "f = wrap_result s (map (\<lambda>i. elem_f ?n (?r i) (?k i)) [0..<prod_list s])"
      using g res unfolding if_not_P[OF no] by simp
    then have "data_of f ! i = elem_f ?n (?r i) (?k i)" using i by simp
    moreover have "0 < ?n" using pos by simp
    ultimately show ?thesis using nan elem_f_NaN by metis
  qed
  from A B C D0 D1 show ?thesis by blast
qed

theorem NaN_elements_witness:
  "broadcast_inputs (PyFloat NaN) (PyFloat (Fin 0.01)) [] \<and>
   list_all (\<lambda>r. r = NaN \<or> fl_lt (Fin 0) r) (data_of (PyFloat NaN)) \<and>
   list_all (\<lambda>k. k = NaN \<or> fl_le (Fin 0) k) (data_of (PyFloat (Fin 0.01))) \<and> (0::int) \<le> 2 \<and>
   (\<exists>f. fst (f_clamond (PyFloat NaN) (PyFloat (Fin 0.01)) 2 []) = Inr f \<and> data_of f ! 0 = NaN)"
proof -
  have b: "broadcast_inputs (PyFloat NaN) (PyFloat (Fin 0.01)) []" by (rule scalar_inputs)
  have r: "\<forall>r\<in>set (data_of (PyFloat NaN)). r = NaN \<or> fl_lt (Fin 0) r" by simp
  have k: "\<forall>k\<in>set (data_of (PyFloat (Fin 0.01))). k = NaN \<or> fl_le (Fin 0) k" by simp
  have n: "(0::int) \<le> 2" by simp
  from NaN_elements_pass_through[OF b r k n, of "[]"]
  have "\<exists>f. fst (f_clamond (PyFloat NaN) (PyFloat (Fin 0.01)) 2 []) = Inr f \<and> data_of f ! 0 = NaN"
    by (auto simp: scalar_inputs)
  with b n show ?thesis by simp
qed

text \<open>
  As the claim states it, for a NaN in \<open>R\<close> or \<open>K\<close> and every \<open>iters \<ge> 0\<close>, it fails at
  \<open>R = 700000\<close>, \<open>K = NaN\<close>, \<open>iters = 0\<close>: \<open>K\<close> enters the result through the loop only, and
  the result is the number that the initial guess gives.
\<close>

lemma fl_square_quotient_not_NaN: "a \<noteq> 0 \<Longrightarrow> fl_square (fl_div (Fin a) (Fin b)) \<noteq> NaN"
  by (simp add: fl_square_def signed_inf_def)

theorem NaN_roughness_counterexample:
  "(0::int) \<le> 0 \<and>
   fst (f_clamond (PyFloat (Fin 700000)) (PyFloat NaN) 0 []) =
     Inr (NpFloat64 (fl_square (fl_div const_A (elem_F0 (Fin 700000))))) \<and>
   fl_square (fl_div const_A (elem_F0 (Fin 700000))) \<noteq> NaN"
proof -
  have b: "well_formed (PyFloat (Fin 700000))" "well_formed (PyFloat NaN)"
    "np_broadcast_shapes (shape_of (PyFloat NaN)) (shape_of (PyFloat (Fin 700000))) = Some []"
    using scalar_inputs(1)[of "Fin 700000" NaN] by (simp_all add: broadcast_inputs_def)
  have v: "\<not> np_any (\<lambda>r. fl_le r (Fin 0)) (PyFloat (Fin 700000))"
    "\<not> np_any (\<lambda>k. fl_lt k (Fin 0)) (PyFloat NaN)"
    by (simp_all add: np_any_def)
  have "fst (f_clamond (PyFloat (Fin 700000)) (PyFloat NaN) 0 []) =
     Inr (NpFloat64 (fl_square (fl_div const_A (elem_F0 (Fin 700000)))))"
    using f_clamond_zero_iters[OF b v, of "[]"] by (simp add: scalar_inputs)
  moreover have "fl_square (fl_div const_A (elem_F0 (Fin 700000))) \<noteq> NaN"
    unfolding const_A_eq elem_F0_Fin[of 700000, simplified]
    by (rule fl_square_quotient_not_NaN[OF literal_A_nonzero])
  ultimately show ?thesis by simp
qed


section \<open>Shape and type of the result\<close>

text \<open>
  After at least one refinement step the result has the broadcast shape of \<open>R\<close> and \<open>K\<close>,
  since \<open>X1\<close> has it and enters \<open>F\<close>. The test of line 89 applies \<open>np.isscalar\<close> to the
  arrays that \<open>np.asarray\<close> made of \<open>R\<close> and \<open>K\<close>, so \<open>float(f)\<close> is never reached: a 0-d
  result is returned as the numpy scalar that the arithmetic produced.
\<close>

lemma result_shape_after_refinement:
  assumes "broadcast_inputs R K s" and "passes_validation R K iters" and "0 < iters"
    and "fst (f_clamond R K iters ws) = Inr f"
  shows "shape_of f = s"
proof -
  from assms(1,2) have b: "well_formed R" "well_formed K"
    "np_broadcast_shapes (shape_of K) (shape_of R) = Some s"
    and v: "\<not> np_any (\<lambda>r. fl_le r (Fin 0)) R" "\<not> np_any (\<lambda>k. fl_lt k (Fin 0)) K"
    by (simp_all add: broadcast_inputs_def passes_validation_def)
  show ?thesis
    using f_clamond_elementwise[OF b v assms(3), of ws] assms(4)
    by (auto split: if_splits)
qed

lemma wrap_result_not_PyFloat: "wrap_result s d \<noteq> PyFloat x"
  by (simp add: wrap_result_def split: list.splits)

lemma final_mapping_not_PyFloat: "final_mapping (np_asarray R) K F \<noteq> Inr (PyFloat x)"
  by (auto simp: final_mapping_def ufunc1_def wrap_result_not_PyFloat split: sum.splits)

lemma never_a_python_float: "fst (f_clamond R K iters ws) \<noteq> Inr (PyFloat x)"
  by (auto simp: f_clamond_def Let_def final_mapping_not_PyFloat split: sum.splits)

text \<open>
  Claim C2 says that the result is an array of the broadcast shape of \<open>R\<close> and \<open>K\<close> whenever
  one of them is an array, as the docstring of the solver does. With \<open>iters = 0\<close> the solver
  does otherwise: \<open>F\<close> is computed from \<open>R\<close> alone, and for the scalar \<open>R = 700000\<close> and
  \<open>K\<close> an array of three elements, whose broadcast shape is \<open>(3,)\<close>, the call returns a
  scalar.
\<close>

theorem zero_iters_result_has_shape_of_R:
  "np_broadcast_shapes (shape_of (NdArray [3] [Fin 0.01, Fin 0.02, Fin 0.03]))
     (shape_of (PyFloat (Fin 700000))) = Some [3] \<and>
   fst (f_clamond (PyFloat (Fin 700000)) (NdArray [3] [Fin 0.01, Fin 0.02, Fin 0.03]) 0 []) =
     Inr (NpFloat64 (fl_square (fl_div const_A (elem_F0 (Fin 700000)))))"
proof -
  let ?K = "NdArray [3] [Fin 0.01, Fin 0.02, Fin 0.03]"
  have bs: "np_broadcast_shapes (shape_of ?K) (shape_of (PyFloat (Fin 700000))) = Some [3]"
    using fits_sym[OF np_broadcast_shapes_scalar[of "[3]"]] by simp
  have wf: "well_formed (PyFloat (Fin 700000))" "well_formed ?K"
    by (simp_all add: well_formed_def)
  have v: "\<not> np_any (\<lambda>r. fl_le r (Fin 0)) (PyFloat (Fin 700000))"
    "\<not> np_any (\<lambda>k. fl_lt k (Fin 0)) ?K"
    by (simp_all add: np_any_def)
  have "fst (f_clamond (PyFloat (Fin 700000)) ?K 0 []) =
     Inr (NpFloat64 (fl_square (fl_div const_A (elem_F0 (Fin 700000)))))"
    using f_clamond_zero_iters[OF wf bs v, of "[]"] by (simp add: scalar_inputs)
  with bs show ?thesis by (rule conjI)
qed

end
